theory Spec2Isabelle
  imports Main
begin

section \<open>Values exchanged with the model and the browser\<close>

text \<open>
  The agent of \<^verbatim>\<open>agent.ts\<close> talks to three external collaborators: the chat
  session of the language model, the Playwright page and the browser that owns it.
  None of them is code of the repository, so they enter the model as parameters: a
  record of operations over an abstract world \<open>'w\<close>. Every operation may throw; a
  thrown JavaScript value is represented by the string that \<^verbatim>\<open>String(err)\<close> yields,
  and an operation returns \<open>Inl\<close> of it together with the world it left behind.

  JSON values are the arguments the model supplies and the fields of the objects that
  \<^verbatim>\<open>callFunction\<close> returns. An object keeps its keys in insertion order, so it is an
  association list; reading a property that is absent gives \<^verbatim>\<open>undefined\<close>, here
  \<open>None\<close>. Numbers are restricted to integers.
\<close>

datatype jval =
    JNull
  | JBool bool
  | JNum int
  | JStr string
  | JArr "jval list"
  | JObj "(string \<times> jval) list"

type_synonym jobject = "(string \<times> jval) list"

definition getProp :: "jobject \<Rightarrow> string \<Rightarrow> jval option" where
  "getProp obj k = map_of obj k"

text \<open>
  A function call requested by the model: \<^verbatim>\<open>call.name\<close> and \<^verbatim>\<open>call.args\<close> are both
  optional in the SDK's type.
\<close>

record functionCall =
  name :: "string option"
  args :: "jobject option"

text \<open>
  A reply of the model. \<open>functionCalls\<close> is the SDK's getter (undefined or a list),
  \<open>candidates\<close> keeps of every candidate only \<^verbatim>\<open>content?.parts\<close> and of every part
  only its optional \<^verbatim>\<open>text\<close>, and \<open>responseText\<close> is the SDK's getter
  \<^verbatim>\<open>response.text\<close>, which \<^verbatim>\<open>doTask\<close> returns.
\<close>

type_synonym candidate = "string option list option"

record reply =
  functionCalls :: "functionCall list option"
  candidates :: "candidate list option"
  responseText :: "string option"

datatype message =
    Text string
  | FunctionResponse string jobject

type_synonym ('r, 'w) io = "'w \<Rightarrow> (string + 'r) \<times> 'w"

text \<open>
  The operations of the collaborators. \<open>'p\<close> is a page handle and \<open>'b\<close> a browser
  handle; their state lives in the world. The numeric arguments are the timeouts the
  source passes (in milliseconds).
\<close>

record ('w, 'p, 'b) env =
  chat_sendMessage :: "message \<Rightarrow> (reply, 'w) io"
  chromium_launch :: "('b, 'w) io"
  browser_newPage :: "'b \<Rightarrow> ('p, 'w) io"
  browser_close :: "'b \<Rightarrow> (unit, 'w) io"
  page_goto :: "'p \<Rightarrow> jval option \<Rightarrow> (unit, 'w) io"
  page_waitForLoadState :: "'p \<Rightarrow> string \<Rightarrow> nat \<Rightarrow> (unit, 'w) io"
  page_waitForTimeout :: "'p \<Rightarrow> nat \<Rightarrow> (unit, 'w) io"
  page_content :: "'p \<Rightarrow> (string, 'w) io"
  page_click :: "'p \<Rightarrow> jval option \<Rightarrow> nat \<Rightarrow> (unit, 'w) io"
  locator_fill :: "'p \<Rightarrow> jval option \<Rightarrow> jval option \<Rightarrow> (unit, 'w) io"
  locator_isVisible :: "'p \<Rightarrow> jval option \<Rightarrow> nat \<Rightarrow> (bool, 'w) io"
  page_url :: "'p \<Rightarrow> (string, 'w) io"
  page_screenshot :: "'p \<Rightarrow> jval option \<Rightarrow> (unit, 'w) io"
  keyboard_press :: "'p \<Rightarrow> jval option \<Rightarrow> (unit, 'w) io"

section \<open>The dispatcher (tools.ts, utils.ts)\<close>

text \<open>
  \<^verbatim>\<open>waitForNetworkIdle(page, timeout = 30000)\<close>: the page is present at its only call
  site; a failed wait for the idle network falls back to a plain wait, whose own
  failure propagates.
\<close>

definition waitForNetworkIdle :: "('w, 'p, 'b) env \<Rightarrow> 'p \<Rightarrow> (unit, 'w) io" where
  "waitForNetworkIdle E pg w =
     (case page_waitForLoadState E pg ''networkidle'' 30000 w of
        (Inr u, w1) \<Rightarrow> (Inr u, w1)
      | (Inl err, w1) \<Rightarrow> page_waitForTimeout E pg 30000 w1)"

text \<open>\<^verbatim>\<open>x || ""\<close> on a string.\<close>

definition orEmpty :: "string \<Rightarrow> string" where
  "orEmpty s = (if s = [] then [] else s)"

definition callGoto :: "('w, 'p, 'b) env \<Rightarrow> 'p \<Rightarrow> jval option \<Rightarrow> (jobject, 'w) io" where
  "callGoto E pg url w =
     (case page_goto E pg url w of
        (Inl err, w1) \<Rightarrow>
          (Inr [(''success'', JBool False), (''html'', JStr []), (''error'', JStr err)], w1)
      | (Inr u, w1) \<Rightarrow>
          (case waitForNetworkIdle E pg w1 of
             (Inl err, w2) \<Rightarrow>
               (Inr [(''success'', JBool False), (''html'', JStr []), (''error'', JStr err)], w2)
           | (Inr u', w2) \<Rightarrow>
               (case page_content E pg w2 of
                  (Inl err, w3) \<Rightarrow>
                    (Inr [(''success'', JBool False), (''html'', JStr []),
                          (''error'', JStr err)], w3)
                | (Inr h, w3) \<Rightarrow>
                    (Inr [(''success'', JBool True), (''html'', JStr (orEmpty h))], w3))))"

definition callClick :: "('w, 'p, 'b) env \<Rightarrow> 'p \<Rightarrow> jval option \<Rightarrow> (jobject, 'w) io" where
  "callClick E pg selector w =
     (case page_click E pg selector 3000 w of
        (Inr u, w1) \<Rightarrow> (Inr [(''success'', JBool True)], w1)
      | (Inl err, w1) \<Rightarrow> (Inr [(''success'', JBool False), (''error'', JStr err)], w1))"

definition callType ::
  "('w, 'p, 'b) env \<Rightarrow> 'p \<Rightarrow> jval option \<Rightarrow> jval option \<Rightarrow> (jobject, 'w) io" where
  "callType E pg selector txt w =
     (case locator_fill E pg selector txt w of
        (Inr u, w1) \<Rightarrow> (Inr [(''success'', JBool True)], w1)
      | (Inl err, w1) \<Rightarrow> (Inr [(''success'', JBool False), (''error'', JStr err)], w1))"

definition callCheckSelector ::
  "('w, 'p, 'b) env \<Rightarrow> 'p \<Rightarrow> jval option \<Rightarrow> (jobject, 'w) io" where
  "callCheckSelector E pg selector w =
     (case locator_isVisible E pg selector 1000 w of
        (Inr v, w1) \<Rightarrow> (Inr [(''success'', JBool True), (''isVisible'', JBool v)], w1)
      | (Inl err, w1) \<Rightarrow>
          (Inr [(''success'', JBool False), (''isVisible'', JBool False),
                (''error'', JStr err)], w1))"

definition callGetHtml :: "('w, 'p, 'b) env \<Rightarrow> 'p \<Rightarrow> (jobject, 'w) io" where
  "callGetHtml E pg w =
     (case page_content E pg w of
        (Inr h, w1) \<Rightarrow> (Inr [(''success'', JBool True), (''html'', JStr (orEmpty h))], w1)
      | (Inl err, w1) \<Rightarrow>
          (Inr [(''success'', JBool False), (''html'', JStr []), (''error'', JStr err)], w1))"

definition callCheckCurrentUrl :: "('w, 'p, 'b) env \<Rightarrow> 'p \<Rightarrow> (jobject, 'w) io" where
  "callCheckCurrentUrl E pg w =
     (case page_url E pg w of
        (Inr u, w1) \<Rightarrow> (Inr [(''success'', JBool True), (''url'', JStr u)], w1)
      | (Inl err, w1) \<Rightarrow>
          (Inr [(''success'', JBool False), (''url'', JStr []), (''error'', JStr err)], w1))"

definition callScreenshot ::
  "('w, 'p, 'b) env \<Rightarrow> 'p \<Rightarrow> jval option \<Rightarrow> (jobject, 'w) io" where
  "callScreenshot E pg path w =
     (case page_screenshot E pg path w of
        (Inr u, w1) \<Rightarrow> (Inr [(''success'', JBool True)], w1)
      | (Inl err, w1) \<Rightarrow> (Inr [(''success'', JBool False)], w1))"

definition callKeyPress :: "('w, 'p, 'b) env \<Rightarrow> 'p \<Rightarrow> jval option \<Rightarrow> (jobject, 'w) io" where
  "callKeyPress E pg key w =
     (case keyboard_press E pg key w of
        (Inr u, w1) \<Rightarrow> (Inr [(''success'', JBool True)], w1)
      | (Inl err, w1) \<Rightarrow> (Inr [(''success'', JBool False), (''error'', JStr err)], w1))"

text \<open>
  The \<^verbatim>\<open>switch\<close> of \<^verbatim>\<open>callFunction\<close>, in the order of its cases, and the statement
  after it. \<open>functionParams\<close> is an object here: \<^verbatim>\<open>doTask\<close> has checked it before the
  call.
\<close>

definition callFunction ::
  "('w, 'p, 'b) env \<Rightarrow> 'p \<Rightarrow> string \<Rightarrow> jobject \<Rightarrow> (jobject, 'w) io" where
  "callFunction E pg functionName functionParams w =
     (if functionName = ''goto'' then callGoto E pg (getProp functionParams ''url'') w
      else if functionName = ''click'' then callClick E pg (getProp functionParams ''selector'') w
      else if functionName = ''type'' then
        callType E pg (getProp functionParams ''selector'') (getProp functionParams ''text'') w
      else if functionName = ''checkSelector'' then
        callCheckSelector E pg (getProp functionParams ''selector'') w
      else if functionName = ''getHtml'' then callGetHtml E pg w
      else if functionName = ''checkCurrentUrl'' then callCheckCurrentUrl E pg w
      else if functionName = ''screenshot'' then callScreenshot E pg (getProp functionParams ''path'') w
      else if functionName = ''keyPress'' then callKeyPress E pg (getProp functionParams ''key'') w
      else (Inr [(''success'', JBool False), (''message'', JStr ''Function not found'')], w))"

text \<open>The names the \<^verbatim>\<open>switch\<close> recognises.\<close>

definition knownFunctions :: "string list" where
  "knownFunctions =
     [''goto'', ''click'', ''type'', ''checkSelector'', ''getHtml'', ''checkCurrentUrl'',
      ''screenshot'', ''keyPress'']"

section \<open>The agent (agent.ts)\<close>

text \<open>
  The fields of \<^verbatim>\<open>ScraperAgent\<close> that its methods change. The chat session is created
  once by the constructor and lives in the world.
\<close>

record ('p, 'b) agent =
  page :: "'p option"
  browser :: "'b option"
  maxAttempts :: int

text \<open>
  What the logging methods write, to the console and to \<^verbatim>\<open>output.md\<close> alike. The
  formatting of an entry is left out; its content is kept. Writing to the console
  and to the file is taken to succeed.
\<close>

datatype event =
    TaskStarted string
  | AgentResponse string
  | NoFunctionCalls
  | Processing nat
  | InvalidFunctionCall
  | FunctionCallLog string jobject
  | FunctionCompleted string jobject
  | FunctionError string
  | MaxAttemptsReached int
  | TaskCompleted int int

text \<open>
  A record of what a run did to its collaborators, kept beside the program state so
  that theorems can speak about it: every message sent into the chat, every call of
  the dispatcher, every launch and close of a browser, and every entry into the body
  of the \<^verbatim>\<open>while\<close> loop of \<^verbatim>\<open>doTask\<close> (with the value of \<^verbatim>\<open>attempts\<close> at that
  moment). The program never reads it.
\<close>

datatype ('p, 'b) effect =
    Sent message
  | Dispatched 'p string jobject
  | Launched 'b
  | LaunchFailed
  | NewPage 'b
  | Close 'b
  | LoopBody int

record ('w, 'p, 'b) rt =
  world :: 'w
  transcript :: "event list"
  effects :: "('p, 'b) effect list"

text \<open>Inside \<^verbatim>\<open>doTask\<close> there is, in addition, the local variable \<^verbatim>\<open>response\<close>.\<close>

record ('w, 'p, 'b) frame = "('w, 'p, 'b) rt" +
  response :: reply

definition enter :: "reply \<Rightarrow> ('w, 'p, 'b) rt \<Rightarrow> ('w, 'p, 'b) frame" where
  "enter r s = \<lparr>world = world s, transcript = transcript s, effects = effects s, response = r\<rparr>"

definition leave :: "('w, 'p, 'b) frame \<Rightarrow> ('w, 'p, 'b) rt" where
  "leave f = \<lparr>world = world f, transcript = transcript f, effects = effects f\<rparr>"

definition logEvent :: "event \<Rightarrow> ('w, 'p, 'b, 'z) rt_scheme \<Rightarrow> ('w, 'p, 'b, 'z) rt_scheme" where
  "logEvent e s = s\<lparr>transcript := transcript s @ [e]\<rparr>"

text \<open>An external call was made: it left the world \<open>w\<close> behind.\<close>

definition perform ::
  "('p, 'b) effect \<Rightarrow> 'w \<Rightarrow> ('w, 'p, 'b, 'z) rt_scheme \<Rightarrow> ('w, 'p, 'b, 'z) rt_scheme" where
  "perform x w s = s\<lparr>world := w, effects := effects s @ [x]\<rparr>"

definition mark :: "('p, 'b) effect \<Rightarrow> ('w, 'p, 'b, 'z) rt_scheme \<Rightarrow> ('w, 'p, 'b, 'z) rt_scheme" where
  "mark x s = s\<lparr>effects := effects s @ [x]\<rparr>"

text \<open>
  The constructor: \<^verbatim>\<open>page\<close> is set when one is passed, \<^verbatim>\<open>browser\<close> starts as
  \<^verbatim>\<open>null\<close> and \<^verbatim>\<open>maxAttempts\<close> as 50. (It also writes the heading of
  \<^verbatim>\<open>output.md\<close> and creates the chat session; neither is a field that a method
  changes later.) \<^verbatim>\<open>maxAttempts\<close> is a JavaScript number that the class uses as a
  count; it is an integer here.
\<close>

definition ScraperAgent :: "'p option \<Rightarrow> ('p, 'b) agent" where
  "ScraperAgent pg = \<lparr>page = pg, browser = None, maxAttempts = 50\<rparr>"

definition setMaxAttempts :: "int \<Rightarrow> ('p, 'b) agent \<Rightarrow> ('p, 'b) agent" where
  "setMaxAttempts n ag = ag\<lparr>maxAttempts := n\<rparr>"

definition overridePage :: "'p \<Rightarrow> ('p, 'b) agent \<Rightarrow> ('p, 'b) agent" where
  "overridePage pg ag = ag\<lparr>page := Some pg\<rparr>"

text \<open>
  \<^verbatim>\<open>initialize\<close>: the browser field is assigned before the page is requested, so a
  failure of \<^verbatim>\<open>newPage\<close> leaves a browser and no page.
\<close>

definition initialize ::
  "('w, 'p, 'b) env \<Rightarrow> ('p, 'b) agent \<Rightarrow> ('w, 'p, 'b) rt \<Rightarrow>
     (string + unit) \<times> ('p, 'b) agent \<times> ('w, 'p, 'b) rt" where
  "initialize E ag s =
     (if page ag = None then
        (case chromium_launch E (world s) of
           (Inl err, w1) \<Rightarrow> (Inl err, ag, perform LaunchFailed w1 s)
         | (Inr b, w1) \<Rightarrow>
             (let ag1 = ag\<lparr>browser := Some b\<rparr>; s1 = perform (Launched b) w1 s in
              case browser_newPage E b (world s1) of
                (Inl err, w2) \<Rightarrow> (Inl err, ag1, perform (NewPage b) w2 s1)
              | (Inr p, w2) \<Rightarrow> (Inr (), ag1\<lparr>page := Some p\<rparr>, perform (NewPage b) w2 s1)))
      else (Inr (), ag, s))"

text \<open>\<^verbatim>\<open>cleanup\<close>: when \<^verbatim>\<open>close\<close> throws, the assignment after it is not reached.\<close>

definition cleanup ::
  "('w, 'p, 'b) env \<Rightarrow> ('p, 'b) agent \<Rightarrow> ('w, 'p, 'b) rt \<Rightarrow>
     (string + unit) \<times> ('p, 'b) agent \<times> ('w, 'p, 'b) rt" where
  "cleanup E ag s =
     (case browser ag of
        None \<Rightarrow> (Inr (), ag, s)
      | Some b \<Rightarrow>
          (case browser_close E b (world s) of
             (Inl err, w1) \<Rightarrow> (Inl err, ag, perform (Close b) w1 s)
           | (Inr u, w1) \<Rightarrow> (Inr (), ag\<lparr>browser := None\<rparr>, perform (Close b) w1 s)))"

subsection \<open>The text of a reply\<close>

text \<open>
  \<^verbatim>\<open>Array.prototype.join\<close>: an undefined element contributes the empty string.
\<close>

fun jsJoin :: "string \<Rightarrow> string option list \<Rightarrow> string" where
  "jsJoin sep [] = []"
| "jsJoin sep [x] = (case x of None \<Rightarrow> [] | Some t \<Rightarrow> t)"
| "jsJoin sep (x # y # ys) = (case x of None \<Rightarrow> [] | Some t \<Rightarrow> t) @ sep @ jsJoin sep (y # ys)"

text \<open>
  \<^verbatim>\<open>response.candidates?.map((c) => c.content?.parts?.map((part) => part.text).join("")).join("\n")\<close>
\<close>

definition candidateText :: "candidate \<Rightarrow> string option" where
  "candidateText c = (case c of None \<Rightarrow> None | Some parts \<Rightarrow> Some (jsJoin [] parts))"

definition replyText :: "reply \<Rightarrow> string option" where
  "replyText r =
     (case candidates r of
        None \<Rightarrow> None
      | Some cs \<Rightarrow> Some (jsJoin [CHR 0x0A] (map candidateText cs)))"

text \<open>
  \<^verbatim>\<open>text.trim()\<close> is the empty string exactly when \<open>text\<close> consists of white space
  and line terminators only. A string of the model is the UTF-8 encoding of the
  JavaScript string. Six of the characters that \<^verbatim>\<open>trim\<close> strips are single bytes
  (TAB, LF, VT, FF, CR, SP); the others are U+00A0, U+1680, U+2000 to U+200A, U+2028,
  U+2029, U+202F, U+205F, U+3000 and U+FEFF, with the encodings listed.
\<close>

definition isSpace :: "char \<Rightarrow> bool" where
  "isSpace c = (c \<in> set [CHR 0x09, CHR 0x0A, CHR 0x0B, CHR 0x0C, CHR 0x0D, CHR 0x20])"

definition wideSpaces :: "string list" where
  "wideSpaces =
     [[CHR 0xC2, CHR 0xA0],
      [CHR 0xE1, CHR 0x9A, CHR 0x80],
      [CHR 0xE2, CHR 0x80, CHR 0x80], [CHR 0xE2, CHR 0x80, CHR 0x81],
      [CHR 0xE2, CHR 0x80, CHR 0x82], [CHR 0xE2, CHR 0x80, CHR 0x83],
      [CHR 0xE2, CHR 0x80, CHR 0x84], [CHR 0xE2, CHR 0x80, CHR 0x85],
      [CHR 0xE2, CHR 0x80, CHR 0x86], [CHR 0xE2, CHR 0x80, CHR 0x87],
      [CHR 0xE2, CHR 0x80, CHR 0x88], [CHR 0xE2, CHR 0x80, CHR 0x89],
      [CHR 0xE2, CHR 0x80, CHR 0x8A],
      [CHR 0xE2, CHR 0x80, CHR 0xA8], [CHR 0xE2, CHR 0x80, CHR 0xA9],
      [CHR 0xE2, CHR 0x80, CHR 0xAF],
      [CHR 0xE2, CHR 0x81, CHR 0x9F],
      [CHR 0xE3, CHR 0x80, CHR 0x80],
      [CHR 0xEF, CHR 0xBB, CHR 0xBF]]"

text \<open>
  Whether the rest of a string is white space only, once \<open>k\<close> more bytes of a
  character already recognised as white space have been passed over.
\<close>

fun blankFrom :: "nat \<Rightarrow> string \<Rightarrow> bool" where
  "blankFrom k [] = (k = 0)"
| "blankFrom k (c # cs) =
     (if 0 < k then blankFrom (k - 1) cs
      else if isSpace c then blankFrom 0 cs
      else (case find (\<lambda>w. take (length w) (c # cs) = w) wideSpaces of
              None \<Rightarrow> False
            | Some w \<Rightarrow> blankFrom (length w - 1) cs))"

definition blank :: "string \<Rightarrow> bool" where
  "blank t = blankFrom 0 t"

text \<open>
  \<^verbatim>\<open>if (text && text.trim()) this.logAgentResponse(text)\<close>, where \<^verbatim>\<open>logAgentResponse\<close>
  repeats the test.
\<close>

definition logAgentResponse :: "string \<Rightarrow> ('w, 'p, 'b, 'z) rt_scheme \<Rightarrow> ('w, 'p, 'b, 'z) rt_scheme" where
  "logAgentResponse t s = (if t = [] \<or> blank t then s else logEvent (AgentResponse t) s)"

definition logReplyText :: "reply \<Rightarrow> ('w, 'p, 'b, 'z) rt_scheme \<Rightarrow> ('w, 'p, 'b, 'z) rt_scheme" where
  "logReplyText r s =
     (case replyText r of
        None \<Rightarrow> s
      | Some t \<Rightarrow> if t \<noteq> [] \<and> \<not> blank t then logAgentResponse t s else s)"

subsection \<open>One function call\<close>

definition errorMsg :: "string \<Rightarrow> string \<Rightarrow> string" where
  "errorMsg functionName err = ''Error calling function '' @ functionName @ '': '' @ err"

text \<open>
  The \<^verbatim>\<open>try\<close> block of the \<^verbatim>\<open>for\<close> loop: announce the call, dispatch it, record the
  result and send it to the model as a function response. Whatever is thrown inside,
  by the dispatcher or by the chat, leaves the block as \<open>Inl\<close>.
\<close>

definition tryBlock ::
  "('w, 'p, 'b) env \<Rightarrow> 'p \<Rightarrow> string \<Rightarrow> jobject \<Rightarrow> ('w, 'p, 'b) frame \<Rightarrow>
     (string + unit) \<times> ('w, 'p, 'b) frame" where
  "tryBlock E pg functionName functionParams s =
     (let s1 = logEvent (FunctionCallLog functionName functionParams) s in
      case callFunction E pg functionName functionParams (world s1) of
        (Inl err, w1) \<Rightarrow> (Inl err, perform (Dispatched pg functionName functionParams) w1 s1)
      | (Inr result, w1) \<Rightarrow>
          (let s2 = logEvent (FunctionCompleted functionName result)
                      (perform (Dispatched pg functionName functionParams) w1 s1) in
           case chat_sendMessage E (FunctionResponse functionName result) (world s2) of
             (Inl err, w2) \<Rightarrow>
               (Inl err, perform (Sent (FunctionResponse functionName result)) w2 s2)
           | (Inr r, w2) \<Rightarrow>
               (Inr (), (perform (Sent (FunctionResponse functionName result)) w2 s2)
                          \<lparr>response := r\<rparr>)))"

text \<open>
  The \<^verbatim>\<open>catch\<close> block: the diagnostic goes to the log and, as a plain message, to the
  model. This \<^verbatim>\<open>sendMessage\<close> is not guarded: what it throws leaves \<^verbatim>\<open>doTask\<close>.
\<close>

definition catchBlock ::
  "('w, 'p, 'b) env \<Rightarrow> string \<Rightarrow> string \<Rightarrow> ('w, 'p, 'b) frame \<Rightarrow>
     (string + unit) \<times> ('w, 'p, 'b) frame" where
  "catchBlock E functionName err s =
     (let s1 = logEvent (FunctionError (errorMsg functionName err)) s in
      case chat_sendMessage E (Text (errorMsg functionName err)) (world s1) of
        (Inl err', w1) \<Rightarrow> (Inl err', perform (Sent (Text (errorMsg functionName err))) w1 s1)
      | (Inr r, w1) \<Rightarrow>
          (Inr (), (perform (Sent (Text (errorMsg functionName err))) w1 s1)\<lparr>response := r\<rparr>))"

definition processCall ::
  "('w, 'p, 'b) env \<Rightarrow> 'p \<Rightarrow> string \<Rightarrow> jobject \<Rightarrow> ('w, 'p, 'b) frame \<Rightarrow>
     (string + unit) \<times> ('w, 'p, 'b) frame" where
  "processCall E pg functionName functionParams s =
     (case tryBlock E pg functionName functionParams s of
        (Inr u, s1) \<Rightarrow> (Inr u, s1)
      | (Inl err, s1) \<Rightarrow> catchBlock E functionName err s1)"

subsection \<open>The two loops and the task\<close>

text \<open>
  \<^verbatim>\<open>!functionName || !functionParams\<close>: the name is undefined or the empty string, or
  the arguments are undefined.
\<close>

definition invalidCall :: "functionCall \<Rightarrow> bool" where
  "invalidCall c = (name c = None \<or> name c = Some [] \<or> args c = None)"

text \<open>
  The \<^verbatim>\<open>for\<close> loop over the calls of one reply. The list is the one read from the reply
  at the top of the \<^verbatim>\<open>while\<close> body; replies received meanwhile replace
  \<^verbatim>\<open>response\<close> but not the list. An invalid call ends the loop (\<^verbatim>\<open>break\<close>).
\<close>

fun forCalls ::
  "('w, 'p, 'b) env \<Rightarrow> 'p \<Rightarrow> functionCall list \<Rightarrow> ('w, 'p, 'b) frame \<Rightarrow>
     (string + unit) \<times> ('w, 'p, 'b) frame" where
  "forCalls E pg [] s = (Inr (), s)"
| "forCalls E pg (c # cs) s =
     (case name c of
        None \<Rightarrow> (Inr (), logEvent InvalidFunctionCall s)
      | Some functionName \<Rightarrow>
          (case args c of
             None \<Rightarrow> (Inr (), logEvent InvalidFunctionCall s)
           | Some functionParams \<Rightarrow>
               if functionName = [] then (Inr (), logEvent InvalidFunctionCall s)
               else (case processCall E pg functionName functionParams s of
                       (Inl err, s1) \<Rightarrow> (Inl err, s1)
                     | (Inr u, s1) \<Rightarrow> forCalls E pg cs s1)))"

text \<open>
  One execution of the body of the \<^verbatim>\<open>while\<close> loop, up to but not including
  \<^verbatim>\<open>attempts++\<close>, while \<^verbatim>\<open>attempts\<close> has the value \<open>a\<close>. It ends in one of three
  ways: it reaches the end of the \<^verbatim>\<open>for\<close> loop (\<open>Next\<close>), it leaves the \<^verbatim>\<open>while\<close>
  loop by the \<^verbatim>\<open>break\<close> on a reply without function calls (\<open>Break\<close>), or an
  exception leaves it (\<open>Throw\<close>).
\<close>

datatype completion = Next | Break | Throw string

definition loopBody ::
  "('w, 'p, 'b) env \<Rightarrow> 'p \<Rightarrow> int \<Rightarrow> ('w, 'p, 'b) frame \<Rightarrow> completion \<times> ('w, 'p, 'b) frame" where
  "loopBody E pg a s =
     (let s1 = logReplyText (response s) (mark (LoopBody a) s) in
      case functionCalls (response s) of
        None \<Rightarrow> (Break, logEvent NoFunctionCalls s1)
      | Some [] \<Rightarrow> (Break, logEvent NoFunctionCalls s1)
      | Some (c # cs) \<Rightarrow>
          (case forCalls E pg (c # cs) (logEvent (Processing (length (c # cs))) s1) of
             (Inl err, s2) \<Rightarrow> (Throw err, s2)
           | (Inr u, s2) \<Rightarrow> (Next, s2)))"

text \<open>
  The \<^verbatim>\<open>while\<close> loop, from the state in which \<^verbatim>\<open>attempts\<close> has the value \<open>a\<close>; \<open>N\<close>
  is \<^verbatim>\<open>this.maxAttempts\<close>, modelled as an integer. It returns the value of
  \<^verbatim>\<open>attempts\<close> at its exit. Only a body that reached its end is followed by
  \<^verbatim>\<open>attempts++\<close>.
\<close>

function whileLoop ::
  "('w, 'p, 'b) env \<Rightarrow> 'p \<Rightarrow> int \<Rightarrow> int \<Rightarrow> ('w, 'p, 'b) frame \<Rightarrow>
     (string + unit) \<times> int \<times> ('w, 'p, 'b) frame" where
  "whileLoop E pg N a s =
     (if a < N then
        (case loopBody E pg a s of
           (Break, s2) \<Rightarrow> (Inr (), a, s2)
         | (Throw err, s2) \<Rightarrow> (Inl err, a, s2)
         | (Next, s2) \<Rightarrow> whileLoop E pg N (a + 1) s2)
      else (Inr (), a, s))"
  by pat_completeness auto
termination
  by (relation "measure (\<lambda>(E, pg, N, a, s). nat (N - a))") auto

text \<open>
  The state at the top of the loop after \<open>k\<close> further executions of the body that
  reached their end, when the loop gets that far.
\<close>

fun iterate ::
  "('w, 'p, 'b) env \<Rightarrow> 'p \<Rightarrow> int \<Rightarrow> nat \<Rightarrow> int \<times> ('w, 'p, 'b) frame \<Rightarrow>
     (int \<times> ('w, 'p, 'b) frame) option" where
  "iterate E pg N 0 x = Some x"
| "iterate E pg N (Suc k) (a, s) =
     (if a < N then
        (case loopBody E pg a s of
           (Next, s2) \<Rightarrow> iterate E pg N k (a + 1, s2)
         | (Break, s2) \<Rightarrow> None
         | (Throw err, s2) \<Rightarrow> None)
      else None)"

text \<open>The first two statements of \<^verbatim>\<open>doTask\<close>: make sure there is a page.\<close>

definition ensurePage ::
  "('w, 'p, 'b) env \<Rightarrow> ('p, 'b) agent \<Rightarrow> ('w, 'p, 'b) rt \<Rightarrow>
     (string + 'p) \<times> ('p, 'b) agent \<times> ('w, 'p, 'b) rt" where
  "ensurePage E ag s =
     (case (if page ag = None then initialize E ag s else (Inr (), ag, s)) of
        (Inl err, ag1, s1) \<Rightarrow> (Inl err, ag1, s1)
      | (Inr u, ag1, s1) \<Rightarrow>
          (case page ag1 of
             None \<Rightarrow> (Inl ''Error: Failed to initialize page'', ag1, s1)
           | Some pg \<Rightarrow> (Inr pg, ag1, s1)))"

text \<open>
  The statements of \<^verbatim>\<open>doTask\<close> after the loop: the note that the budget is used up,
  the closing entry of the log with the value of \<^verbatim>\<open>attempts\<close>, and the returned
  \<^verbatim>\<open>response.text\<close>. An exception that left the loop skips them.
\<close>

definition afterLoop ::
  "int \<Rightarrow> (string + unit) \<times> int \<times> ('w, 'p, 'b) frame \<Rightarrow>
     (string + string option) \<times> ('w, 'p, 'b) frame" where
  "afterLoop N l =
     (case l of
        (Inl err, a, s4) \<Rightarrow> (Inl err, s4)
      | (Inr u, a, s4) \<Rightarrow>
          (let s5 = (if a = N then logEvent (MaxAttemptsReached N) s4 else s4);
               s6 = logEvent (TaskCompleted a N) s5
           in (Inr (responseText (response s6)), s6)))"

text \<open>
  \<^verbatim>\<open>doTask\<close>. The result is \<open>Inl\<close> of what was thrown, or \<open>Inr\<close> of
  \<^verbatim>\<open>response.text\<close>, with the agent and the world as the call leaves them.
\<close>

definition doTask ::
  "('w, 'p, 'b) env \<Rightarrow> string \<Rightarrow> ('p, 'b) agent \<Rightarrow> ('w, 'p, 'b) rt \<Rightarrow>
     (string + string option) \<times> ('p, 'b) agent \<times> ('w, 'p, 'b) rt" where
  "doTask E task ag s =
     (case ensurePage E ag s of
        (Inl err, ag1, s1) \<Rightarrow> (Inl err, ag1, s1)
      | (Inr pg, ag1, s1) \<Rightarrow>
          (let s2 = logEvent (TaskStarted task) s1 in
           case chat_sendMessage E (Text task) (world s2) of
             (Inl err, w3) \<Rightarrow> (Inl err, ag1, perform (Sent (Text task)) w3 s2)
           | (Inr r, w3) \<Rightarrow>
               (case afterLoop (maxAttempts ag1)
                       (whileLoop E pg (maxAttempts ag1) 0
                          (enter r (perform (Sent (Text task)) w3 s2))) of
                  (out, s6) \<Rightarrow> (out, ag1, leave s6))))"

section \<open>Observations\<close>

text \<open>A result object carries a boolean under the key \<^verbatim>\<open>success\<close>.\<close>

definition hasSuccessFlag :: "jobject \<Rightarrow> bool" where
  "hasSuccessFlag res =
     (case getProp res ''success'' of
        Some (JBool b) \<Rightarrow> True
      | _ \<Rightarrow> False)"

text \<open>A call returned, rather than threw, and what it returned has the flag.\<close>

definition returnsFlag :: "(string + jobject) \<times> 'w \<Rightarrow> bool" where
  "returnsFlag x =
     (case x of
        (Inr res, w) \<Rightarrow> hasSuccessFlag res
      | (Inl err, w) \<Rightarrow> False)"

text \<open>How often a run entered the body of the \<^verbatim>\<open>while\<close> loop.\<close>

fun isLoopBody :: "('p, 'b) effect \<Rightarrow> bool" where
  "isLoopBody (LoopBody a) = True"
| "isLoopBody x = False"

definition loopBodies :: "('p, 'b) effect list \<Rightarrow> nat" where
  "loopBodies xs = length (filter isLoopBody xs)"

fun isClose :: "('p, 'b) effect \<Rightarrow> bool" where
  "isClose (Close b) = True"
| "isClose x = False"

fun isLaunched :: "('p, 'b) effect \<Rightarrow> bool" where
  "isLaunched (Launched b) = True"
| "isLaunched x = False"

text \<open>
  The value of \<^verbatim>\<open>attempts\<close> when \<^verbatim>\<open>doTask\<close> returned, as its closing log entry
  (``Attempts used: a/N'') reports it.
\<close>

definition attemptsAtExit :: "event list \<Rightarrow> int option" where
  "attemptsAtExit tr =
     (case rev tr of
        TaskCompleted a n # _ \<Rightarrow> Some a
      | _ \<Rightarrow> None)"

section \<open>Clients of the class\<close>

text \<open>
  A client constructs an agent and then calls its public methods in some order. An
  exception that a method throws is the client's to handle; the fields the method had
  already assigned stay assigned.
\<close>

datatype 'p call =
    DoTask string
  | Cleanup
  | OverridePage 'p
  | SetMaxAttempts int

fun invoke ::
  "('w, 'p, 'b) env \<Rightarrow> 'p call \<Rightarrow> ('p, 'b) agent \<times> ('w, 'p, 'b) rt \<Rightarrow>
     ('p, 'b) agent \<times> ('w, 'p, 'b) rt" where
  "invoke E (DoTask task) (ag, s) = snd (doTask E task ag s)"
| "invoke E Cleanup (ag, s) = snd (cleanup E ag s)"
| "invoke E (OverridePage pg) (ag, s) = (overridePage pg ag, s)"
| "invoke E (SetMaxAttempts n) (ag, s) = (setMaxAttempts n ag, s)"

fun client ::
  "('w, 'p, 'b) env \<Rightarrow> 'p call list \<Rightarrow> ('p, 'b) agent \<times> ('w, 'p, 'b) rt \<Rightarrow>
     ('p, 'b) agent \<times> ('w, 'p, 'b) rt" where
  "client E [] x = x"
| "client E (c # cs) x = client E cs (invoke E c x)"

text \<open>The client replaces the page before its first task.\<close>

fun injectsFirst :: "'p call list \<Rightarrow> bool" where
  "injectsFirst [] = False"
| "injectsFirst (OverridePage pg # cs) = True"
| "injectsFirst (DoTask task # cs) = False"
| "injectsFirst (Cleanup # cs) = injectsFirst cs"
| "injectsFirst (SetMaxAttempts n # cs) = injectsFirst cs"

section \<open>A scripted environment\<close>

text \<open>
  A concrete environment for running the definitions: the world is the list of the
  outcomes the chat will produce, one per message sent (a reply, or an exception), and
  the browser always obliges. Page and browser handles are numbers.
\<close>

type_synonym script = "(string + reply) list"

definition scripted :: "(script, nat, nat) env" where
  "scripted =
     \<lparr>chat_sendMessage =
        (\<lambda>m w. case w of [] \<Rightarrow> (Inl ''Error: no reply'', []) | x # xs \<Rightarrow> (x, xs)),
      chromium_launch = (\<lambda>w. (Inr 1, w)),
      browser_newPage = (\<lambda>b w. (Inr 1, w)),
      browser_close = (\<lambda>b w. (Inr (), w)),
      page_goto = (\<lambda>pg url w. (Inr (), w)),
      page_waitForLoadState = (\<lambda>pg st t w. (Inr (), w)),
      page_waitForTimeout = (\<lambda>pg t w. (Inr (), w)),
      page_content = (\<lambda>pg w. (Inr ''<html></html>'', w)),
      page_click = (\<lambda>pg sel t w. (Inr (), w)),
      locator_fill = (\<lambda>pg sel txt w. (Inr (), w)),
      locator_isVisible = (\<lambda>pg sel t w. (Inr True, w)),
      page_url = (\<lambda>pg w. (Inr ''about:blank'', w)),
      page_screenshot = (\<lambda>pg path w. (Inr (), w)),
      keyboard_press = (\<lambda>pg key w. (Inr (), w))\<rparr>"

definition start :: "script \<Rightarrow> (script, nat, nat) rt" where
  "start w = \<lparr>world = w, transcript = [], effects = []\<rparr>"

text \<open>A reply that only says something, and replies that request calls.\<close>

definition says :: "string \<Rightarrow> reply" where
  "says t = \<lparr>functionCalls = None, candidates = Some [Some [Some t]], responseText = Some t\<rparr>"

definition requests :: "functionCall list \<Rightarrow> reply" where
  "requests cs = \<lparr>functionCalls = Some cs, candidates = Some [Some [None]], responseText = None\<rparr>"

definition gotoExample :: functionCall where
  "gotoExample = \<lparr>name = Some ''goto'', args = Some [(''url'', JStr ''https://example.com'')]\<rparr>"

definition nameless :: functionCall where
  "nameless = \<lparr>name = None, args = Some []\<rparr>"

section \<open>The dispatcher returns\<close>

text \<open>
  Each of the eight actions wraps its calls of the page in \<^verbatim>\<open>try\<close>/\<^verbatim>\<open>catch\<close> and
  turns an exception into an object with \<^verbatim>\<open>success: false\<close>.
\<close>

lemma callGoto_returns: "returnsFlag (callGoto E pg url w)"
  by (simp add: callGoto_def returnsFlag_def hasSuccessFlag_def getProp_def
      split: prod.splits sum.splits)

lemma callClick_returns: "returnsFlag (callClick E pg sel w)"
  by (simp add: callClick_def returnsFlag_def hasSuccessFlag_def getProp_def
      split: prod.splits sum.splits)

lemma callType_returns: "returnsFlag (callType E pg sel txt w)"
  by (simp add: callType_def returnsFlag_def hasSuccessFlag_def getProp_def
      split: prod.splits sum.splits)

lemma callCheckSelector_returns: "returnsFlag (callCheckSelector E pg sel w)"
  by (simp add: callCheckSelector_def returnsFlag_def hasSuccessFlag_def getProp_def
      split: prod.splits sum.splits)

lemma callGetHtml_returns: "returnsFlag (callGetHtml E pg w)"
  by (simp add: callGetHtml_def returnsFlag_def hasSuccessFlag_def getProp_def
      split: prod.splits sum.splits)

lemma callCheckCurrentUrl_returns: "returnsFlag (callCheckCurrentUrl E pg w)"
  by (simp add: callCheckCurrentUrl_def returnsFlag_def hasSuccessFlag_def getProp_def
      split: prod.splits sum.splits)

lemma callScreenshot_returns: "returnsFlag (callScreenshot E pg path w)"
  by (simp add: callScreenshot_def returnsFlag_def hasSuccessFlag_def getProp_def
      split: prod.splits sum.splits)

lemma callKeyPress_returns: "returnsFlag (callKeyPress E pg key w)"
  by (simp add: callKeyPress_def returnsFlag_def hasSuccessFlag_def getProp_def
      split: prod.splits sum.splits)

lemma callFunction_returns: "returnsFlag (callFunction E pg fname ps w)"
proof -
  have notFound:
    "returnsFlag
       (Inr [(''success'', JBool False), (''message'', JStr ''Function not found'')], w)"
    by (simp add: returnsFlag_def hasSuccessFlag_def getProp_def)
  show ?thesis
    unfolding callFunction_def using notFound
    by (simp add: callGoto_returns callClick_returns callType_returns
        callCheckSelector_returns callGetHtml_returns callCheckCurrentUrl_returns
        callScreenshot_returns callKeyPress_returns)
qed

lemma callFunction_unknown:
  "fname \<notin> set knownFunctions \<Longrightarrow>
   callFunction E pg fname ps w =
     (Inr [(''success'', JBool False), (''message'', JStr ''Function not found'')], w)"
  by (simp add: callFunction_def knownFunctions_def)

text \<open>
  Claim C4, as the code has it. The claim says that \<^verbatim>\<open>callFunction\<close> raises an
  exception for a name outside the enumerated set. It does not: the statement after
  the \<^verbatim>\<open>switch\<close> returns the object \<^verbatim>\<open>{ success: false, message: "Function not found" }\<close>
  and leaves the page alone. What holds is that for every name, recognised or not,
  and every argument object, \<^verbatim>\<open>callFunction\<close> returns a value that carries a
  boolean \<^verbatim>\<open>success\<close> flag and never throws; and that for a name which is not one
  of the eight, the value is that fixed object.
\<close>

theorem callFunction_never_raises:
  "returnsFlag (callFunction E pg fname ps w) \<and>
   (fname \<notin> set knownFunctions \<longrightarrow>
      callFunction E pg fname ps w =
        (Inr [(''success'', JBool False), (''message'', JStr ''Function not found'')], w))"
  using callFunction_returns [of E pg fname ps w] callFunction_unknown [of fname E pg ps w]
  by blast

theorem callFunction_never_raises_witness:
  "''navigate'' \<notin> set knownFunctions \<and>
   returnsFlag
     (callFunction scripted 7 ''navigate'' [(''url'', JStr ''https://example.com'')] []) \<and>
   callFunction scripted 7 ''navigate'' [(''url'', JStr ''https://example.com'')] [] =
     (Inr [(''success'', JBool False), (''message'', JStr ''Function not found'')], [])"
  using callFunction_never_raises
    [of scripted 7 "''navigate''" "[(''url'', JStr ''https://example.com'')]" "[]"]
  by (simp add: knownFunctions_def returnsFlag_def hasSuccessFlag_def getProp_def)

text \<open>
  The claim C4 as stated fails: \<^verbatim>\<open>navigate\<close> is not a name of the \<^verbatim>\<open>switch\<close>, and
  the call returns instead of throwing.
\<close>

theorem callFunction_unknown_counterexample:
  "''navigate'' \<notin> set knownFunctions \<and>
   \<not> (\<exists>err w'.
         callFunction scripted 7 ''navigate'' [(''url'', JStr ''https://example.com'')] []
           = (Inl err, w'))"
  by (simp add: knownFunctions_def callFunction_def)

section \<open>Fields under the logging and bookkeeping functions\<close>

lemma logEvent_fields [simp]:
  "world (logEvent e s) = world s"
  "transcript (logEvent e s) = transcript s @ [e]"
  "effects (logEvent e s) = effects s"
  by (simp_all add: logEvent_def)

lemma logEvent_response [simp]: "response (logEvent e s) = response s"
  by (simp add: logEvent_def)

lemma perform_fields [simp]:
  "world (perform x w s) = w"
  "transcript (perform x w s) = transcript s"
  "effects (perform x w s) = effects s @ [x]"
  by (simp_all add: perform_def)

lemma perform_response [simp]: "response (perform x w s) = response s"
  by (simp add: perform_def)

lemma mark_fields [simp]:
  "world (mark x s) = world s"
  "transcript (mark x s) = transcript s"
  "effects (mark x s) = effects s @ [x]"
  by (simp_all add: mark_def)

lemma mark_response [simp]: "response (mark x s) = response s"
  by (simp add: mark_def)

lemma logReplyText_fields [simp]:
  "world (logReplyText r s) = world s"
  "effects (logReplyText r s) = effects s"
  by (simp_all add: logReplyText_def logAgentResponse_def split: option.splits)

lemma logReplyText_response [simp]: "response (logReplyText r s) = response s"
  by (simp add: logReplyText_def logAgentResponse_def split: option.splits)

lemma enter_fields [simp]:
  "world (enter r s) = world s"
  "transcript (enter r s) = transcript s"
  "effects (enter r s) = effects s"
  "response (enter r s) = r"
  by (simp_all add: enter_def)

lemma leave_fields [simp]:
  "world (leave f) = world f"
  "transcript (leave f) = transcript f"
  "effects (leave f) = effects f"
  by (simp_all add: leave_def)

section \<open>Counting the executions of the loop body\<close>

lemma loopBodies_append [simp]: "loopBodies (xs @ ys) = loopBodies xs + loopBodies ys"
  by (simp add: loopBodies_def)

lemma loopBodies_Nil [simp]: "loopBodies [] = 0"
  by (simp add: loopBodies_def)

lemma loopBodies_Cons [simp]:
  "loopBodies (x # xs) = (if isLoopBody x then 1 else 0) + loopBodies xs"
  by (simp add: loopBodies_def)

lemma tryBlock_bodies:
  "loopBodies (effects (snd (tryBlock E pg f ps s))) = loopBodies (effects s)"
  by (simp add: tryBlock_def Let_def split: prod.splits sum.splits)

lemma catchBlock_bodies:
  "loopBodies (effects (snd (catchBlock E f err s))) = loopBodies (effects s)"
  by (simp add: catchBlock_def Let_def split: prod.splits sum.splits)

lemma processCall_bodies:
  "loopBodies (effects (snd (processCall E pg f ps s))) = loopBodies (effects s)"
proof (cases "tryBlock E pg f ps s")
  case (Pair out s1)
  then have "loopBodies (effects s1) = loopBodies (effects s)"
    using tryBlock_bodies [of E pg f ps s] by simp
  with Pair show ?thesis
    by (cases out) (simp_all add: processCall_def catchBlock_bodies)
qed

lemma forCalls_bodies:
  "loopBodies (effects (snd (forCalls E pg cs s))) = loopBodies (effects s)"
proof (induction cs arbitrary: s)
  case Nil
  show ?case by simp
next
  case (Cons c cs)
  show ?case
  proof (cases "invalidCall c")
    case True
    then show ?thesis
      by (auto simp: invalidCall_def split: option.splits)
  next
    case False
    then obtain f ps where c: "name c = Some f" "args c = Some ps" "f \<noteq> []"
      by (auto simp: invalidCall_def)
    obtain out s1 where p: "processCall E pg f ps s = (out, s1)"
      by (cases "processCall E pg f ps s")
    then have s1: "loopBodies (effects s1) = loopBodies (effects s)"
      using processCall_bodies [of E pg f ps s] by simp
    show ?thesis
      using c p s1 Cons.IH [of s1] by (cases out) simp_all
  qed
qed

text \<open>Every execution of the body is entered once in the record of effects.\<close>

lemma loopBody_bodies:
  "loopBodies (effects (snd (loopBody E pg a s))) = loopBodies (effects s) + 1"
proof (cases "functionCalls (response s)")
  case None
  then show ?thesis by (simp add: loopBody_def)
next
  case (Some calls)
  show ?thesis
  proof (cases calls)
    case Nil
    with Some show ?thesis by (simp add: loopBody_def)
  next
    case (Cons c cs)
    let ?s0 = "logEvent (Processing (length (c # cs)))
                 (logReplyText (response s) (mark (LoopBody a) s))"
    obtain o2 s2 where f: "forCalls E pg (c # cs) ?s0 = (o2, s2)"
      by (cases "forCalls E pg (c # cs) ?s0")
    have "loopBodies (effects s2) = loopBodies (effects s) + 1"
      using forCalls_bodies [of E pg "c # cs" ?s0] f by (simp del: forCalls.simps)
    with Some Cons f show ?thesis
      by (cases o2) (simp_all add: loopBody_def Let_def del: forCalls.simps)
  qed
qed

text \<open>
  A body that finds no function calls is the one that breaks, and it leaves
  \<^verbatim>\<open>response\<close> as it found it.
\<close>

lemma loopBody_Break:
  "loopBody E pg a s = (Break, s2) \<Longrightarrow>
   (functionCalls (response s) = None \<or> functionCalls (response s) = Some []) \<and>
   response s2 = response s \<and> world s2 = world s"
  by (auto simp: loopBody_def Let_def simp del: forCalls.simps
      split: option.splits list.splits prod.splits sum.splits)

text \<open>
  The invariant of the loop: the counter grows by one for each body that reached its
  end, and the body that ends the loop early is not counted.
\<close>

lemma whileLoop_count:
  "whileLoop E pg N a s = (out, a', s') \<Longrightarrow>
   a \<le> a' \<and>
   int (loopBodies (effects s')) =
     int (loopBodies (effects s)) + (a' - a) + (if a' < N then 1 else 0) \<and>
   (a' < N \<or> out = Inr ()) \<and> (a < N \<longrightarrow> a' \<le> N) \<and> (N \<le> a \<longrightarrow> a' = a) \<and>
   (a' < N \<and> out = Inr () \<longrightarrow>
      functionCalls (response s') = None \<or> functionCalls (response s') = Some [])"
proof (induction E pg N a s arbitrary: out a' s' rule: whileLoop.induct)
  case (1 E pg N a s)
  show ?case
  proof (cases "a < N")
    case False
    with "1.prems" show ?thesis by simp
  next
    case True
    obtain k s2 where body: "loopBody E pg a s = (k, s2)"
      by (cases "loopBody E pg a s")
    have b2: "loopBodies (effects s2) = loopBodies (effects s) + 1"
      using loopBody_bodies [of E pg a s] body by simp
    show ?thesis
    proof (cases k)
      case Break
      with body True b2 "1.prems" loopBody_Break [of E pg a s s2] show ?thesis by auto
    next
      case (Throw err)
      with body True b2 "1.prems" show ?thesis by auto
    next
      case Next
      have rec: "whileLoop E pg N (a + 1) s2 = (out, a', s')"
        using body Next True "1.prems" by simp
      have IH: "a + 1 \<le> a' \<and>
        int (loopBodies (effects s')) =
          int (loopBodies (effects s2)) + (a' - (a + 1)) + (if a' < N then 1 else 0) \<and>
        (a' < N \<or> out = Inr ()) \<and> (a + 1 < N \<longrightarrow> a' \<le> N) \<and> (N \<le> a + 1 \<longrightarrow> a' = a + 1) \<and>
        (a' < N \<and> out = Inr () \<longrightarrow>
           functionCalls (response s') = None \<or> functionCalls (response s') = Some [])"
        using "1.IH" [OF True body [symmetric] Next rec] .
      with b2 True show ?thesis by auto
    qed
  qed
qed

section \<open>The task as a whole\<close>

text \<open>
  The equation of the loop is unfolded where a proof asks for it, one iteration at a
  time.
\<close>

declare whileLoop.simps [simp del]

text \<open>The definitions that a run on concrete data unfolds.\<close>

lemmas run_defs =
  loopBody_def processCall_def tryBlock_def catchBlock_def callFunction_def
  callGoto_def waitForNetworkIdle_def orEmpty_def getProp_def errorMsg_def
  scripted_def says_def requests_def start_def gotoExample_def nameless_def
  enter_def leave_def logEvent_def perform_def mark_def
  logReplyText_def replyText_def candidateText_def blank_def isSpace_def wideSpaces_def
  logAgentResponse_def
  afterLoop_def doTask_def ensurePage_def initialize_def cleanup_def ScraperAgent_def
  setMaxAttempts_def overridePage_def attemptsAtExit_def Let_def

lemma initialize_keeps:
  "maxAttempts (fst (snd (initialize E ag s))) = maxAttempts ag \<and>
   loopBodies (effects (snd (snd (initialize E ag s)))) = loopBodies (effects s)"
  by (simp add: initialize_def Let_def split: prod.splits sum.splits)

lemma ensurePage_keeps:
  "maxAttempts (fst (snd (ensurePage E ag s))) = maxAttempts ag \<and>
   loopBodies (effects (snd (snd (ensurePage E ag s)))) = loopBodies (effects s)"
proof (cases "page ag = None")
  case True
  obtain out ag1 s1 where i: "initialize E ag s = (out, ag1, s1)"
    by (cases "initialize E ag s") auto
  with initialize_keeps [of E ag s]
  have "maxAttempts ag1 = maxAttempts ag" "loopBodies (effects s1) = loopBodies (effects s)"
    by simp_all
  with True i show ?thesis
    by (cases out) (simp_all add: ensurePage_def split: option.splits)
next
  case False
  then show ?thesis
    by (auto simp: ensurePage_def)
qed

lemma ensurePage_present:
  "page ag = Some pg \<Longrightarrow> ensurePage E ag s = (Inr pg, ag, s)"
  by (simp add: ensurePage_def)

lemma afterLoop_effects [simp]:
  "effects (snd (afterLoop N (out, a, s))) = effects s"
  "world (snd (afterLoop N (out, a, s))) = world s"
  by (cases out; simp add: afterLoop_def Let_def)+

lemma afterLoop_Inr:
  "afterLoop N (Inr (), a, s) =
     (Inr (responseText (response s)),
      logEvent (TaskCompleted a N)
        (if a = N then logEvent (MaxAttemptsReached N) s else s))"
  by (simp add: afterLoop_def Let_def)

lemma doTask_run:
  assumes "ensurePage E ag s = (Inr pg, ag1, s1)"
    and "chat_sendMessage E (Text task) (world s1) = (Inr r, w3)"
  shows "doTask E task ag s =
    (case afterLoop (maxAttempts ag1)
            (whileLoop E pg (maxAttempts ag1) 0
               (enter r (perform (Sent (Text task)) w3 (logEvent (TaskStarted task) s1)))) of
       (out, s6) \<Rightarrow> (out, ag1, leave s6))"
  using assms by (simp add: doTask_def Let_def)

text \<open>
  Claim C1. Whatever the replies of the model are and however many function calls
  each of them requests, a call of \<^verbatim>\<open>doTask\<close> with \<^verbatim>\<open>maxAttempts = N\<close> enters
  the body of its \<^verbatim>\<open>while\<close> loop at most \<open>N\<close> times (not at all when \<open>N \<le> 0\<close>). This
  holds for a call that returns and for one that an exception leaves. The environment
  \<open>E\<close> and the world in \<open>s\<close> are arbitrary: they stand for every possible sequence
  of replies.
\<close>

theorem doTask_loop_bodies_bounded:
  "int (loopBodies (effects (snd (snd (doTask E task ag s)))))
     \<le> int (loopBodies (effects s)) + max 0 (maxAttempts ag)"
proof -
  obtain o1 ag1 s1 where e: "ensurePage E ag s = (o1, ag1, s1)"
    by (cases "ensurePage E ag s") auto
  have keep: "maxAttempts ag1 = maxAttempts ag" "loopBodies (effects s1) = loopBodies (effects s)"
    using ensurePage_keeps [of E ag s] e by simp_all
  show ?thesis
  proof (cases o1)
    case (Inl err)
    with e keep show ?thesis by (simp add: doTask_def)
  next
    case (Inr pg)
    obtain o2 w3 where m: "chat_sendMessage E (Text task) (world s1) = (o2, w3)"
      by (cases "chat_sendMessage E (Text task) (world s1)")
    show ?thesis
    proof (cases o2)
      case (Inl err)
      with e Inr m keep show ?thesis by (simp add: doTask_def Let_def)
    next
      case r: (Inr r)
      let ?N = "maxAttempts ag1"
      let ?s3 = "enter r (perform (Sent (Text task)) w3 (logEvent (TaskStarted task) s1))"
      obtain out a' s4 where l: "whileLoop E pg ?N 0 ?s3 = (out, a', s4)"
        by (cases "whileLoop E pg ?N 0 ?s3") auto
      have count: "0 \<le> a'"
        "int (loopBodies (effects s4)) =
           int (loopBodies (effects ?s3)) + (a' - 0) + (if a' < ?N then 1 else 0)"
        "0 < ?N \<longrightarrow> a' \<le> ?N" "?N \<le> 0 \<longrightarrow> a' = 0"
        using whileLoop_count [OF l] by simp_all
      have "int (loopBodies (effects s4)) \<le> int (loopBodies (effects s1)) + max 0 ?N"
        using count by (auto split: if_splits)
      moreover have "doTask E task ag s =
          (fst (afterLoop ?N (out, a', s4)), ag1, leave (snd (afterLoop ?N (out, a', s4))))"
        using doTask_run [of E ag s pg ag1 s1 task r w3] e Inr m r l
        by (simp add: case_prod_beta)
      ultimately show ?thesis
        using keep by simp
    qed
  qed
qed

text \<open>
  Claim C7, as the code has it. The claim says that every execution of the loop body
  increases \<^verbatim>\<open>attempts\<close> by one. The execution that finds no function calls ends in
  \<^verbatim>\<open>break\<close>, which comes before \<^verbatim>\<open>attempts++\<close>, and so does not count itself. What
  holds is this: when the loop is left with \<^verbatim>\<open>attempts = a'\<close>, having started at
  \<open>a\<close>, the number of bodies it executed is \<open>a' - a\<close>, plus one exactly when it was
  left before the budget was used up; every body that reached its end increased the
  counter by one, whatever the number of calls in its batch, and the one body that
  did not is the last, ended by the \<^verbatim>\<open>break\<close> on a reply without function calls or
  by an exception.
\<close>

theorem whileLoop_attempts_count_completed_bodies:
  "whileLoop E pg N a s = (out, a', s') \<Longrightarrow>
   int (loopBodies (effects s')) - int (loopBodies (effects s))
     = (a' - a) + (if a' < N then 1 else 0) \<and>
   (a' < N \<and> out = Inr () \<longrightarrow>
      functionCalls (response s') = None \<or> functionCalls (response s') = Some []) \<and>
   (N \<le> a' \<longrightarrow> out = Inr ())"
  using whileLoop_count [of E pg N a s out a' s'] by auto

text \<open>
  A run of the loop for the witness: the first reply requests two calls, the second
  reply (received after the first call) is replaced by the third (received after the
  second call), which requests nothing. Two bodies, and \<^verbatim>\<open>attempts\<close> ends as 1.
\<close>

theorem whileLoop_attempts_count_completed_bodies_witness:
  "fst (whileLoop scripted 7 50 0
          (enter (requests [gotoExample, gotoExample])
             (start [Inr (says ''Loading.''), Inr (says ''Done.'')]))) = Inr () \<and>
   fst (snd (whileLoop scripted 7 50 0
          (enter (requests [gotoExample, gotoExample])
             (start [Inr (says ''Loading.''), Inr (says ''Done.'')])))) = 1 \<and>
   int (loopBodies (effects (snd (snd (whileLoop scripted 7 50 0
          (enter (requests [gotoExample, gotoExample])
             (start [Inr (says ''Loading.''), Inr (says ''Done.'')]))))))) = 2 \<and>
   functionCalls (response (snd (snd (whileLoop scripted 7 50 0
          (enter (requests [gotoExample, gotoExample])
             (start [Inr (says ''Loading.''), Inr (says ''Done.'')])))))) = None"
proof -
  let ?s = "enter (requests [gotoExample, gotoExample])
              (start [Inr (says ''Loading.''), Inr (says ''Done.'')])"
  have out: "fst (whileLoop scripted 7 50 0 ?s) = Inr ()"
    by (simp add: whileLoop.simps run_defs)
  have att: "fst (snd (whileLoop scripted 7 50 0 ?s)) = 1"
    by (simp add: whileLoop.simps run_defs)
  have run: "whileLoop scripted 7 50 0 ?s = (Inr (), 1, snd (snd (whileLoop scripted 7 50 0 ?s)))"
    using out att by (metis prod.collapse)
  have none: "functionCalls (response (snd (snd (whileLoop scripted 7 50 0 ?s)))) \<noteq> Some []"
    by (simp add: whileLoop.simps run_defs)
  show ?thesis
    using whileLoop_attempts_count_completed_bodies [OF run] out att none
    by (simp add: start_def)
qed

text \<open>
  The claim C7 as stated fails: when the reply under examination requests nothing,
  the body is executed (once) and \<^verbatim>\<open>attempts\<close> is still 0 afterwards.
\<close>

theorem loop_body_without_increment_counterexample:
  "loopBodies (effects (snd (snd (whileLoop scripted 7 50 0 (enter (says ''Hello.'') (start []))))))
     - loopBodies (effects (enter (says ''Hello.'') (start []) :: (script, nat, nat) frame)) = 1 \<and>
   fst (snd (whileLoop scripted 7 50 0 (enter (says ''Hello.'') (start [])))) \<noteq> 0 + 1"
  by (simp add: whileLoop.simps run_defs)

section \<open>Replies without function calls, and an empty budget\<close>

lemma loopBody_no_calls:
  "functionCalls (response s) = None \<or> functionCalls (response s) = Some [] \<Longrightarrow>
   loopBody E pg a s =
     (Break, logEvent NoFunctionCalls (logReplyText (response s) (mark (LoopBody a) s)))"
  by (auto simp: loopBody_def)

lemma whileLoop_no_calls:
  "functionCalls (response s) = None \<or> functionCalls (response s) = Some [] \<Longrightarrow>
   whileLoop E pg N a s =
     (if a < N
      then (Inr (), a, logEvent NoFunctionCalls (logReplyText (response s) (mark (LoopBody a) s)))
      else (Inr (), a, s))"
  by (subst whileLoop.simps) (simp add: loopBody_no_calls)

lemma whileLoop_exhausted: "N \<le> a \<Longrightarrow> whileLoop E pg N a s = (Inr (), a, s)"
  by (subst whileLoop.simps) simp

lemma whileLoop_Next:
  "a < N \<Longrightarrow> loopBody E pg a s = (Next, s2) \<Longrightarrow>
   whileLoop E pg N a s = whileLoop E pg N (a + 1) s2"
  by (subst whileLoop.simps) simp

text \<open>
  Claim C2, as the code has it. The claim says that the counter equals 1 at the exit
  when the first reply requests nothing. The loop body is indeed executed once (if
  \<^verbatim>\<open>maxAttempts\<close> is at least 1), but it ends in the \<^verbatim>\<open>break\<close> that precedes
  \<^verbatim>\<open>attempts++\<close>: the counter is 0 at the exit, and that is what the log reports.
  The rest holds: whenever a page is available and the chat answers the task with a
  reply without function calls, \<^verbatim>\<open>doTask\<close> returns that reply's text, having sent
  the task and nothing else.
\<close>

theorem doTask_first_reply_without_calls:
  assumes "ensurePage E ag s = (Inr pg, ag1, s1)"
    and "chat_sendMessage E (Text task) (world s1) = (Inr r, w3)"
    and "functionCalls r = None \<or> functionCalls r = Some []"
  shows "fst (doTask E task ag s) = Inr (responseText r) \<and>
         attemptsAtExit (transcript (snd (snd (doTask E task ag s)))) = Some 0 \<and>
         effects (snd (snd (doTask E task ag s))) =
           effects s1 @ Sent (Text task) # (if 0 < maxAttempts ag then [LoopBody 0] else [])"
proof -
  let ?s3 = "enter r (perform (Sent (Text task)) w3 (logEvent (TaskStarted task) s1))"
  have N: "maxAttempts ag1 = maxAttempts ag"
    using ensurePage_keeps [of E ag s] assms(1) by simp
  have loop: "whileLoop E pg (maxAttempts ag) 0 ?s3 =
      (if 0 < maxAttempts ag
       then (Inr (), 0, logEvent NoFunctionCalls (logReplyText (response ?s3) (mark (LoopBody 0) ?s3)))
       else (Inr (), 0, ?s3))"
    using assms(3) by (intro whileLoop_no_calls) simp
  show ?thesis
    using doTask_run [OF assms(1,2)] N loop
    by (simp add: afterLoop_Inr attemptsAtExit_def)
qed

theorem doTask_first_reply_without_calls_witness:
  "fst (doTask scripted ''say hello'' (ScraperAgent (Some 7)) (start [Inr (says ''Hello.'')]))
     = Inr (Some ''Hello.'') \<and>
   attemptsAtExit (transcript (snd (snd
     (doTask scripted ''say hello'' (ScraperAgent (Some 7)) (start [Inr (says ''Hello.'')])))))
     = Some 0 \<and>
   effects (snd (snd
     (doTask scripted ''say hello'' (ScraperAgent (Some 7)) (start [Inr (says ''Hello.'')]))))
     = [Sent (Text ''say hello''), LoopBody 0]"
proof -
  have page: "ensurePage scripted (ScraperAgent (Some 7)) (start [Inr (says ''Hello.'')])
      = (Inr 7, ScraperAgent (Some 7), start [Inr (says ''Hello.'')])"
    by (simp add: ensurePage_def ScraperAgent_def)
  have send: "chat_sendMessage scripted (Text ''say hello'')
      (world (start [Inr (says ''Hello.'')])) = (Inr (says ''Hello.''), [])"
    by (simp add: scripted_def start_def)
  have none: "functionCalls (says ''Hello.'') = None \<or> functionCalls (says ''Hello.'') = Some []"
    by (simp add: says_def)
  show ?thesis
    using doTask_first_reply_without_calls [OF page send none]
    by (simp add: says_def start_def ScraperAgent_def)
qed

text \<open>
  The claim C2 as stated fails: the first reply requests nothing, and the log's
  closing entry reports 0 attempts, not 1.
\<close>

theorem first_reply_without_calls_counterexample:
  "functionCalls (says ''Hello.'') = None \<and>
   attemptsAtExit (transcript (snd (snd
     (doTask scripted ''say hello'' (ScraperAgent (Some 7)) (start [Inr (says ''Hello.'')])))))
     \<noteq> Some 1"
  by (simp add: whileLoop.simps run_defs)

text \<open>
  Claim C9. With \<^verbatim>\<open>maxAttempts\<close> set to a value \<open>n \<le> 0\<close> by \<^verbatim>\<open>setMaxAttempts\<close>,
  \<^verbatim>\<open>doTask\<close> still acquires a page and sends the task, once; the loop body is never
  entered, so nothing is dispatched and nothing else is sent; and the text of the
  first reply is returned. The call is described completely: the only traces it
  leaves are the message sent and the entries of the log.
\<close>

theorem doTask_without_budget:
  assumes "n \<le> 0"
    and "ensurePage E (setMaxAttempts n ag) s = (Inr pg, ag1, s1)"
    and "chat_sendMessage E (Text task) (world s1) = (Inr r, w3)"
  shows "doTask E task (setMaxAttempts n ag) s =
    (Inr (responseText r), ag1,
     \<lparr>world = w3,
      transcript = transcript s1 @ TaskStarted task #
        (if n = 0 then [MaxAttemptsReached 0] else []) @ [TaskCompleted 0 n],
      effects = effects s1 @ [Sent (Text task)]\<rparr>)"
proof -
  have N: "maxAttempts ag1 = n"
    using ensurePage_keeps [of E "setMaxAttempts n ag" s] assms(2)
    by (simp add: setMaxAttempts_def)
  show ?thesis
    using doTask_run [OF assms(2,3)] N assms(1)
    by (simp add: whileLoop_exhausted afterLoop_Inr leave_def)
qed

theorem doTask_without_budget_witness:
  "doTask scripted ''say hello'' (setMaxAttempts (- 3) (ScraperAgent None))
     (start [Inr (requests [gotoExample])]) =
    (Inr None, \<lparr>page = Some 1, browser = Some 1, maxAttempts = - 3\<rparr>,
     \<lparr>world = [],
      transcript = [TaskStarted ''say hello'', TaskCompleted 0 (- 3)],
      effects = [Launched 1, NewPage 1, Sent (Text ''say hello'')]\<rparr>)"
proof -
  have budget: "(- 3 :: int) \<le> 0"
    by simp
  have page: "ensurePage scripted (setMaxAttempts (- 3) (ScraperAgent None))
      (start [Inr (requests [gotoExample])]) =
      (Inr 1, \<lparr>page = Some 1, browser = Some 1, maxAttempts = - 3\<rparr>,
       \<lparr>world = [Inr (requests [gotoExample])], transcript = [],
        effects = [Launched 1, NewPage 1]\<rparr>)"
    by (simp add: ensurePage_def initialize_def setMaxAttempts_def ScraperAgent_def
        scripted_def start_def perform_def)
  have send: "chat_sendMessage scripted (Text ''say hello'')
      (world \<lparr>world = [Inr (requests [gotoExample])], transcript = [],
        effects = [Launched 1 :: (nat, nat) effect, NewPage 1]\<rparr>)
      = (Inr (requests [gotoExample]), [])"
    by (simp add: scripted_def)
  show ?thesis
    using doTask_without_budget [OF budget page send]
    by (simp add: requests_def)
qed

section \<open>Function calls that succeed, fail and are malformed\<close>

lemma tryBlock_returns:
  assumes "callFunction E pg f ps (world s) = (Inr res, w1)"
    and "chat_sendMessage E (FunctionResponse f res) w1 = (Inr r, w2)"
  shows "tryBlock E pg f ps s =
    (Inr (), (perform (Sent (FunctionResponse f res)) w2
                (logEvent (FunctionCompleted f res)
                   (perform (Dispatched pg f ps) w1 (logEvent (FunctionCallLog f ps) s))))
             \<lparr>response := r\<rparr>)"
  using assms by (simp add: tryBlock_def Let_def)

lemma forCalls_invalid:
  "invalidCall c \<Longrightarrow> forCalls E pg (c # cs) s = (Inr (), logEvent InvalidFunctionCall s)"
  by (auto simp: invalidCall_def split: option.splits)

text \<open>
  Claim C3, as the code has it. In the scenario of the claim the first reply requests
  one \<^verbatim>\<open>goto\<close> (the spec's navigate), the call returns, and the reply to its
  result requests nothing and says \<^verbatim>\<open>Done.\<close> The text \<^verbatim>\<open>Done.\<close> is returned, as
  claimed, but the counter is 1 at the exit, not 2: the first body reached
  \<^verbatim>\<open>attempts++\<close>, the second left by \<^verbatim>\<open>break\<close> before it. This holds for every
  \<^verbatim>\<open>maxAttempts\<close> of at least 1 (with exactly 1 the second body is not even entered),
  for every URL and whether or not the navigation succeeded.
\<close>

theorem doTask_goto_then_done:
  assumes "ensurePage E ag s = (Inr pg, ag1, s1)"
    and "chat_sendMessage E (Text task) (world s1) = (Inr r1, w2)"
    and "functionCalls r1 = Some [\<lparr>name = Some ''goto'', args = Some [(''url'', JStr url)]\<rparr>]"
    and "callFunction E pg ''goto'' [(''url'', JStr url)] w2 = (Inr res, w3)"
    and "chat_sendMessage E (FunctionResponse ''goto'' res) w3 = (Inr r2, w4)"
    and "functionCalls r2 = None \<or> functionCalls r2 = Some []"
    and "responseText r2 = Some ''Done.''"
    and "1 \<le> maxAttempts ag"
  shows "fst (doTask E task ag s) = Inr (Some ''Done.'') \<and>
         attemptsAtExit (transcript (snd (snd (doTask E task ag s)))) = Some 1 \<and>
         effects (snd (snd (doTask E task ag s))) =
           effects s1 @
           [Sent (Text task), LoopBody 0, Dispatched pg ''goto'' [(''url'', JStr url)],
            Sent (FunctionResponse ''goto'' res)] @
           (if 1 < maxAttempts ag then [LoopBody 1] else [])"
proof -
  let ?N = "maxAttempts ag"
  let ?ps = "[(''url'', JStr url)]"
  let ?s3 = "enter r1 (perform (Sent (Text task)) w2 (logEvent (TaskStarted task) s1))"
  let ?s0 = "logEvent (Processing 1) (logReplyText r1 (mark (LoopBody 0) ?s3))"
  let ?s4 = "(perform (Sent (FunctionResponse ''goto'' res)) w4
               (logEvent (FunctionCompleted ''goto'' res)
                  (perform (Dispatched pg ''goto'' ?ps) w3
                     (logEvent (FunctionCallLog ''goto'' ?ps) ?s0))))\<lparr>response := r2\<rparr>"
  have N: "maxAttempts ag1 = ?N"
    using ensurePage_keeps [of E ag s] assms(1) by simp
  have "tryBlock E pg ''goto'' ?ps ?s0 = (Inr (), ?s4)"
    using assms(4,5) by (intro tryBlock_returns) simp_all
  then have "forCalls E pg [\<lparr>name = Some ''goto'', args = Some ?ps\<rparr>] ?s0 = (Inr (), ?s4)"
    by (simp add: processCall_def)
  then have body: "loopBody E pg 0 ?s3 = (Next, ?s4)"
    using assms(3) by (simp add: loopBody_def Let_def del: forCalls.simps)
  have first: "whileLoop E pg ?N 0 ?s3 = whileLoop E pg ?N (0 + 1) ?s4"
    using assms(8) body by (intro whileLoop_Next) simp_all
  have second: "whileLoop E pg ?N 1 ?s4 =
      (if 1 < ?N
       then (Inr (), 1, logEvent NoFunctionCalls (logReplyText (response ?s4) (mark (LoopBody 1) ?s4)))
       else (Inr (), 1, ?s4))"
    using assms(6) by (intro whileLoop_no_calls) simp
  show ?thesis
    using doTask_run [OF assms(1,2)] N first second assms(7)
    by (simp add: afterLoop_Inr attemptsAtExit_def)
qed

theorem doTask_goto_then_done_witness:
  "fst (doTask scripted ''navigate to example.com'' (ScraperAgent (Some 7))
          (start [Inr (requests [gotoExample]), Inr (says ''Done.'')])) = Inr (Some ''Done.'') \<and>
   attemptsAtExit (transcript (snd (snd
     (doTask scripted ''navigate to example.com'' (ScraperAgent (Some 7))
          (start [Inr (requests [gotoExample]), Inr (says ''Done.'')]))))) = Some 1 \<and>
   effects (snd (snd
     (doTask scripted ''navigate to example.com'' (ScraperAgent (Some 7))
          (start [Inr (requests [gotoExample]), Inr (says ''Done.'')])))) =
     [Sent (Text ''navigate to example.com''), LoopBody 0,
      Dispatched 7 ''goto'' [(''url'', JStr ''https://example.com'')],
      Sent (FunctionResponse ''goto''
              [(''success'', JBool True), (''html'', JStr ''<html></html>'')]),
      LoopBody 1]"
proof -
  let ?w = "[Inr (requests [gotoExample]), Inr (says ''Done.'')]"
  have page: "ensurePage scripted (ScraperAgent (Some 7)) (start ?w)
      = (Inr 7, ScraperAgent (Some 7), start ?w)"
    by (simp add: ensurePage_def ScraperAgent_def)
  have send: "chat_sendMessage scripted (Text ''navigate to example.com'') (world (start ?w))
      = (Inr (requests [gotoExample]), [Inr (says ''Done.'')])"
    by (simp add: scripted_def start_def)
  have calls: "functionCalls (requests [gotoExample]) =
      Some [\<lparr>name = Some ''goto'', args = Some [(''url'', JStr ''https://example.com'')]\<rparr>]"
    by (simp add: requests_def gotoExample_def)
  have goto: "callFunction scripted 7 ''goto'' [(''url'', JStr ''https://example.com'')]
        [Inr (says ''Done.'')] =
      (Inr [(''success'', JBool True), (''html'', JStr ''<html></html>'')], [Inr (says ''Done.'')])"
    by (simp add: callFunction_def callGoto_def waitForNetworkIdle_def orEmpty_def scripted_def)
  have answer: "chat_sendMessage scripted
        (FunctionResponse ''goto'' [(''success'', JBool True), (''html'', JStr ''<html></html>'')])
        [Inr (says ''Done.'')] = (Inr (says ''Done.''), [])"
    by (simp add: scripted_def)
  have none: "functionCalls (says ''Done.'') = None \<or> functionCalls (says ''Done.'') = Some []"
    by (simp add: says_def)
  have said: "responseText (says ''Done.'') = Some ''Done.''"
    by (simp add: says_def)
  have budget: "1 \<le> maxAttempts (ScraperAgent (Some 7) :: (nat, nat) agent)"
    by (simp add: ScraperAgent_def)
  show ?thesis
    using doTask_goto_then_done [OF page send calls goto answer none said budget]
    by (simp add: start_def ScraperAgent_def)
qed

text \<open>
  The claim C3 as stated fails: in its scenario the log's closing entry reports 1
  attempt, not 2.
\<close>

theorem goto_then_done_counterexample:
  "fst (doTask scripted ''navigate to example.com'' (ScraperAgent (Some 7))
          (start [Inr (requests [gotoExample]), Inr (says ''Done.'')])) = Inr (Some ''Done.'') \<and>
   attemptsAtExit (transcript (snd (snd
     (doTask scripted ''navigate to example.com'' (ScraperAgent (Some 7))
          (start [Inr (requests [gotoExample]), Inr (says ''Done.'')]))))) \<noteq> Some 2"
  by (simp add: whileLoop.simps run_defs)




section \<open>A reply whose first call is malformed\<close>

lemma iterate_whileLoop:
  "iterate E pg N k (a, s) = Some (a', s') \<Longrightarrow>
   whileLoop E pg N a s = whileLoop E pg N a' s' \<and> a' = a + int k \<and>
   loopBodies (effects s') = loopBodies (effects s) + k"
proof (induction k arbitrary: a s)
  case 0
  then show ?case by simp
next
  case (Suc k)
  from Suc.prems have lt: "a < N"
    by (simp split: if_splits)
  obtain c s2 where body: "loopBody E pg a s = (c, s2)"
    by (cases "loopBody E pg a s")
  with Suc.prems lt have c: "c = Next" and rest: "iterate E pg N k (a + 1, s2) = Some (a', s')"
    by (cases c; simp)+
  have "loopBodies (effects s2) = loopBodies (effects s) + 1"
    using loopBody_bodies [of E pg a s] body by simp
  moreover have "whileLoop E pg N a s = whileLoop E pg N (a + 1) s2"
    using lt body c by (simp add: whileLoop_Next)
  ultimately show ?case
    using Suc.IH [OF rest] by simp
qed

lemma loopBody_invalid_first:
  "functionCalls (response s) = Some (c # cs) \<Longrightarrow> invalidCall c \<Longrightarrow>
   loopBody E pg a s =
     (Next, logEvent InvalidFunctionCall
              (logEvent (Processing (length (c # cs)))
                 (logReplyText (response s) (mark (LoopBody a) s))))"
  by (simp add: loopBody_def Let_def forCalls_invalid del: forCalls.simps)

text \<open>
  Nothing in such a body touches the world or \<^verbatim>\<open>response\<close>, so the next body finds
  the same reply: the loop runs until the budget is used up.
\<close>

lemma whileLoop_stuck:
  "functionCalls (response s) = Some (c # cs) \<Longrightarrow> invalidCall c \<Longrightarrow>
   whileLoop E pg N a s = (out, a', s') \<Longrightarrow>
   out = Inr () \<and> a' = max a N \<and> world s' = world s \<and> response s' = response s \<and>
   effects s' = effects s @ map LoopBody [a..N - 1]"
proof (induction E pg N a s arbitrary: out a' s' rule: whileLoop.induct)
  case (1 E pg N a s)
  show ?case
  proof (cases "a < N")
    case False
    with "1.prems"(3) show ?thesis
      by (simp add: whileLoop_exhausted)
  next
    case True
    let ?s2 = "logEvent InvalidFunctionCall
                 (logEvent (Processing (length (c # cs)))
                    (logReplyText (response s) (mark (LoopBody a) s)))"
    have body: "loopBody E pg a s = (Next, ?s2)"
      using "1.prems"(1,2) by (rule loopBody_invalid_first)
    have rec: "whileLoop E pg N (a + 1) ?s2 = (out, a', s')"
      using whileLoop_Next [OF True body] "1.prems"(3) by simp
    have same: "functionCalls (response ?s2) = Some (c # cs)"
      using "1.prems"(1) by simp
    have IH: "out = Inr () \<and> a' = max (a + 1) N \<and> world s' = world ?s2 \<and>
        response s' = response ?s2 \<and> effects s' = effects ?s2 @ map LoopBody [a + 1..N - 1]"
      using "1.IH" [OF True body [symmetric] refl same "1.prems"(2) rec] .
    have "[a..N - 1] = a # [a + 1..N - 1]"
      using True by (simp add: upto_rec1)
    with IH True show ?thesis
      by simp
  qed
qed

text \<open>
  Claim C8. Suppose a call of \<^verbatim>\<open>doTask\<close> reaches, after \<open>k\<close> executions of the loop
  body, the top of the loop with \<^verbatim>\<open>attempts = a\<close> below the budget, and the reply then
  under examination has a first function call without a name or without arguments.
  From there on no message is sent into the chat and nothing is dispatched: the world
  is left as it is, and the only further effects are the remaining executions of the
  body, one for each value of the counter from \<open>a\<close> to \<^verbatim>\<open>maxAttempts - 1\<close>.
  Altogether the body has then been executed exactly \<^verbatim>\<open>maxAttempts\<close> times, the
  counter equals \<^verbatim>\<open>maxAttempts\<close> at the exit, and \<^verbatim>\<open>doTask\<close> returns the text of
  that same reply. With \<open>k = 0\<close> the reply is the first one.
\<close>

theorem invalid_first_call_uses_up_budget:
  assumes "ensurePage E ag s = (Inr pg, ag1, s1)"
    and "chat_sendMessage E (Text task) (world s1) = (Inr r0, w3)"
    and "iterate E pg (maxAttempts ag) k
           (0, enter r0 (perform (Sent (Text task)) w3 (logEvent (TaskStarted task) s1)))
         = Some (a, s2)"
    and "a < maxAttempts ag"
    and "functionCalls (response s2) = Some (c # cs)"
    and "invalidCall c"
  shows "fst (doTask E task ag s) = Inr (responseText (response s2)) \<and>
         world (snd (snd (doTask E task ag s))) = world s2 \<and>
         effects (snd (snd (doTask E task ag s))) =
           effects s2 @ map LoopBody [a..maxAttempts ag - 1] \<and>
         int (loopBodies (effects (snd (snd (doTask E task ag s))))) =
           int (loopBodies (effects s1)) + maxAttempts ag \<and>
         attemptsAtExit (transcript (snd (snd (doTask E task ag s)))) = Some (maxAttempts ag)"
proof -
  let ?N = "maxAttempts ag"
  let ?s3 = "enter r0 (perform (Sent (Text task)) w3 (logEvent (TaskStarted task) s1))"
  have N: "maxAttempts ag1 = ?N"
    using ensurePage_keeps [of E ag s] assms(1) by simp
  have reach: "whileLoop E pg ?N 0 ?s3 = whileLoop E pg ?N a s2" "a = int k"
    "loopBodies (effects s2) = loopBodies (effects ?s3) + k"
    using iterate_whileLoop [OF assms(3)] by simp_all
  obtain out a' s' where l: "whileLoop E pg ?N a s2 = (out, a', s')"
    by (cases "whileLoop E pg ?N a s2") auto
  have stuck: "out = Inr ()" "a' = max a ?N" "world s' = world s2" "response s' = response s2"
    "effects s' = effects s2 @ map LoopBody [a..?N - 1]"
    using whileLoop_stuck [OF assms(5,6) l] by simp_all
  have a': "a' = ?N"
    using stuck(2) assms(4) by simp
  have count: "int (loopBodies (effects s')) = int (loopBodies (effects s2)) + (?N - a)"
    using whileLoop_count [OF l] a' by simp
  have "doTask E task ag s =
      (Inr (responseText (response s2)), ag1,
       leave (logEvent (TaskCompleted ?N ?N) (logEvent (MaxAttemptsReached ?N) s')))"
    using doTask_run [OF assms(1,2)] N reach(1) l stuck(1,4) a'
    by (simp add: afterLoop_Inr)
  then show ?thesis
    using stuck(3,5) count reach(2,3) by (simp add: attemptsAtExit_def)
qed

text \<open>
  For the witness the budget is 3; the first reply requests a \<^verbatim>\<open>goto\<close>, and the
  reply to its result starts with a call without a name. One body processes the
  \<^verbatim>\<open>goto\<close>, two more find the malformed call.
\<close>

theorem invalid_first_call_uses_up_budget_witness:
  "fst (doTask scripted ''go'' (setMaxAttempts 3 (ScraperAgent (Some 7)))
          (start [Inr (requests [gotoExample]), Inr (requests [nameless, gotoExample])]))
     = Inr (responseText (requests [nameless, gotoExample])) \<and>
   effects (snd (snd (doTask scripted ''go'' (setMaxAttempts 3 (ScraperAgent (Some 7)))
          (start [Inr (requests [gotoExample]), Inr (requests [nameless, gotoExample])])))) =
     [Sent (Text ''go''), LoopBody 0,
      Dispatched 7 ''goto'' [(''url'', JStr ''https://example.com'')],
      Sent (FunctionResponse ''goto''
              [(''success'', JBool True), (''html'', JStr ''<html></html>'')]),
      LoopBody 1, LoopBody 2] \<and>
   attemptsAtExit (transcript (snd (snd
     (doTask scripted ''go'' (setMaxAttempts 3 (ScraperAgent (Some 7)))
          (start [Inr (requests [gotoExample]), Inr (requests [nameless, gotoExample])])))))
     = Some 3"
proof -
  let ?w = "[Inr (requests [gotoExample]), Inr (requests [nameless, gotoExample])]"
  let ?ag = "setMaxAttempts 3 (ScraperAgent (Some 7)) :: (nat, nat) agent"
  let ?s3 = "enter (requests [gotoExample])
               (perform (Sent (Text ''go'')) [Inr (requests [nameless, gotoExample])]
                  (logEvent (TaskStarted ''go'') (start ?w)))"
  let ?s2 = "\<lparr>world = [],
      transcript = [TaskStarted ''go'', Processing 1,
         FunctionCallLog ''goto'' [(''url'', JStr ''https://example.com'')],
         FunctionCompleted ''goto''
           [(''success'', JBool True), (''html'', JStr ''<html></html>'')]],
      effects = [Sent (Text ''go''), LoopBody 0,
         Dispatched 7 ''goto'' [(''url'', JStr ''https://example.com'')],
         Sent (FunctionResponse ''goto''
                 [(''success'', JBool True), (''html'', JStr ''<html></html>'')])],
      response = requests [nameless, gotoExample]\<rparr>"
  have page: "ensurePage scripted ?ag (start ?w) = (Inr 7, ?ag, start ?w)"
    by (simp add: ensurePage_def ScraperAgent_def setMaxAttempts_def)
  have send: "chat_sendMessage scripted (Text ''go'') (world (start ?w))
      = (Inr (requests [gotoExample]), [Inr (requests [nameless, gotoExample])])"
    by (simp add: scripted_def start_def)
  have reach: "iterate scripted 7 (maxAttempts ?ag) (Suc 0) (0, ?s3) = Some (1, ?s2)"
    by (simp add: run_defs)
  have budget: "1 < maxAttempts ?ag"
    by (simp add: setMaxAttempts_def)
  have calls: "functionCalls (response ?s2) = Some (nameless # [gotoExample])"
    by (simp add: requests_def)
  have bad: "invalidCall nameless"
    by (simp add: invalidCall_def nameless_def)
  have upto: "[1..2] = [1, 2 :: int]"
    by (simp add: upto.simps)
  show ?thesis
    using invalid_first_call_uses_up_budget [OF page send reach budget calls bad] upto
    by (simp add: setMaxAttempts_def)
qed

section \<open>An exception inside the guarded block\<close>

text \<open>
  The dispatcher returns, so the only statement of the \<^verbatim>\<open>try\<close> block that can
  throw is the one that sends the function response.
\<close>

lemma tryBlock_throws_from_chat:
  assumes "tryBlock E pg f ps s = (Inl err, s1)"
  shows "\<exists>res w1 w2. callFunction E pg f ps (world s) = (Inr res, w1) \<and>
           chat_sendMessage E (FunctionResponse f res) w1 = (Inl err, w2)"
proof -
  obtain o1 w1 where d: "callFunction E pg f ps (world s) = (o1, w1)"
    by (cases "callFunction E pg f ps (world s)")
  have "returnsFlag (o1, w1)"
    using callFunction_returns [of E pg f ps "world s"] d by simp
  then obtain res where res: "o1 = Inr res"
    by (cases o1) (simp_all add: returnsFlag_def)
  obtain o2 w2 where m: "chat_sendMessage E (FunctionResponse f res) w1 = (o2, w2)"
    by (cases "chat_sendMessage E (FunctionResponse f res) w1")
  have "o2 = Inl err"
    using assms d res m by (cases o2) (simp_all add: tryBlock_def Let_def)
  with d res m show ?thesis
    by simp
qed

lemma forCalls_after_valid:
  "\<forall>x \<in> set pre. \<not> invalidCall x \<Longrightarrow>
   forCalls E pg (pre @ rest) s =
     (case forCalls E pg pre s of
        (Inl e, s1) \<Rightarrow> (Inl e, s1)
      | (Inr u, s1) \<Rightarrow> forCalls E pg rest s1)"
proof (induction pre arbitrary: s)
  case Nil
  then show ?case by simp
next
  case (Cons c pre)
  then obtain f ps where c: "name c = Some f" "f \<noteq> []" "args c = Some ps"
    by (auto simp: invalidCall_def)
  obtain out s1 where p: "processCall E pg f ps s = (out, s1)"
    by (cases "processCall E pg f ps s")
  show ?case
  proof (cases out)
    case (Inl err)
    with c p show ?thesis by simp
  next
    case (Inr u)
    have "forCalls E pg (pre @ rest) s1 =
        (case forCalls E pg pre s1 of
           (Inl e, s2) \<Rightarrow> (Inl e, s2)
         | (Inr u, s2) \<Rightarrow> forCalls E pg rest s2)"
      using Cons.IH [of s1] Cons.prems by simp
    with c p Inr show ?thesis by simp
  qed
qed

lemma loopBody_calls:
  "functionCalls (response s) = Some cs \<Longrightarrow> cs \<noteq> [] \<Longrightarrow>
   loopBody E pg a s =
     (case forCalls E pg cs
             (logEvent (Processing (length cs))
                (logReplyText (response s) (mark (LoopBody a) s))) of
        (Inl e, s2) \<Rightarrow> (Throw e, s2)
      | (Inr u, s2) \<Rightarrow> (Next, s2))"
  by (cases cs) (simp_all add: loopBody_def Let_def del: forCalls.simps)

lemma whileLoop_body:
  "a < N \<Longrightarrow>
   whileLoop E pg N a s =
     (case loopBody E pg a s of
        (Next, s2) \<Rightarrow> whileLoop E pg N (a + 1) s2
      | (Break, s2) \<Rightarrow> (Inr (), a, s2)
      | (Throw e, s2) \<Rightarrow> (Inl e, a, s2))"
  by (subst whileLoop.simps) simp

text \<open>
  Claim C5, as the code has it. Suppose a call of \<^verbatim>\<open>doTask\<close> reaches, after \<open>k\<close>
  executions of the loop body, a reply whose calls are \<open>pre\<close>, then the well-formed
  call \<open>c\<close>, then \<open>post\<close>; the calls of \<open>pre\<close> are processed, and the guarded block
  of \<open>c\<close> throws \<open>err\<close>. The dispatcher never throws: what threw is the send of the
  function response. \<^verbatim>\<open>doTask\<close> catches \<open>err\<close>, logs the diagnostic
  \<^verbatim>\<open>Error calling function <name>: <err>\<close> and sends it into the chat as a plain
  message. The claim says that the resulting reply is then captured and that no
  exception reaches the caller. That holds when the chat answers the diagnostic: the
  reply becomes the current one, the \<^verbatim>\<open>for\<close> loop goes on with \<open>post\<close>, the loop
  with the next iteration, and \<open>err\<close> is not passed on. But the send of the diagnostic
  stands in the \<^verbatim>\<open>catch\<close> block, outside any \<^verbatim>\<open>try\<close>: when it throws, there is no
  reply to capture and its exception leaves \<^verbatim>\<open>doTask\<close>.
\<close>

theorem caught_exception_becomes_diagnostic:
  assumes "ensurePage E ag s = (Inr pg, ag1, s1)"
    and "chat_sendMessage E (Text task) (world s1) = (Inr r0, w3)"
    and "iterate E pg (maxAttempts ag) k
           (0, enter r0 (perform (Sent (Text task)) w3 (logEvent (TaskStarted task) s1)))
         = Some (a, s2)"
    and "a < maxAttempts ag"
    and "functionCalls (response s2) = Some (pre @ c # post)"
    and "\<forall>x \<in> set pre. \<not> invalidCall x"
    and "name c = Some f" and "f \<noteq> []" and "args c = Some ps"
    and "forCalls E pg pre
           (logEvent (Processing (length (pre @ c # post)))
              (logReplyText (response s2) (mark (LoopBody a) s2))) = (Inr (), s3)"
    and "tryBlock E pg f ps s3 = (Inl err, s4)"
  shows "(\<exists>res w1 w2. callFunction E pg f ps (world s3) = (Inr res, w1) \<and>
            chat_sendMessage E (FunctionResponse f res) w1 = (Inl err, w2)) \<and>
         errorMsg f err = ''Error calling function '' @ f @ '': '' @ err \<and>
         doTask E task ag s =
           (case chat_sendMessage E (Text (errorMsg f err)) (world s4) of
              (Inr r, w5) \<Rightarrow>
                (case afterLoop (maxAttempts ag)
                        (case forCalls E pg post
                                ((perform (Sent (Text (errorMsg f err))) w5
                                    (logEvent (FunctionError (errorMsg f err)) s4))
                                 \<lparr>response := r\<rparr>) of
                           (Inl e, s6) \<Rightarrow> (Inl e, a, s6)
                         | (Inr u, s6) \<Rightarrow> whileLoop E pg (maxAttempts ag) (a + 1) s6) of
                   (out, s7) \<Rightarrow> (out, ag1, leave s7))
            | (Inl err', w5) \<Rightarrow>
                (Inl err', ag1,
                 leave (perform (Sent (Text (errorMsg f err))) w5
                          (logEvent (FunctionError (errorMsg f err)) s4))))"
proof -
  let ?N = "maxAttempts ag"
  let ?init = "enter r0 (perform (Sent (Text task)) w3 (logEvent (TaskStarted task) s1))"
  let ?top = "logEvent (Processing (length (pre @ c # post)))
                (logReplyText (response s2) (mark (LoopBody a) s2))"
  let ?logged = "logEvent (FunctionError (errorMsg f err)) s4"
  have N: "maxAttempts ag1 = ?N"
    using ensurePage_keeps [of E ag s] assms(1) by simp
  have reach: "whileLoop E pg ?N 0 ?init = whileLoop E pg ?N a s2"
    using iterate_whileLoop [OF assms(3)] by simp
  have source: "\<exists>res w1 w2. callFunction E pg f ps (world s3) = (Inr res, w1) \<and>
      chat_sendMessage E (FunctionResponse f res) w1 = (Inl err, w2)"
    using assms(11) by (rule tryBlock_throws_from_chat)
  have handler: "processCall E pg f ps s3 = catchBlock E f err s4"
    using assms(11) by (simp add: processCall_def)
  have batch: "forCalls E pg (pre @ c # post) ?top =
      (case catchBlock E f err s4 of
         (Inl e, s5) \<Rightarrow> (Inl e, s5)
       | (Inr u, s5) \<Rightarrow> forCalls E pg post s5)"
    using forCalls_after_valid [OF assms(6), of E pg "c # post" ?top]
      assms(7-10) handler by simp
  have body: "loopBody E pg a s2 =
      (case forCalls E pg (pre @ c # post) ?top of
         (Inl e, s6) \<Rightarrow> (Throw e, s6)
       | (Inr u, s6) \<Rightarrow> (Next, s6))"
    using assms(5) by (intro loopBody_calls) simp_all
  have loop: "whileLoop E pg ?N a s2 =
      (case loopBody E pg a s2 of
         (Next, s6) \<Rightarrow> whileLoop E pg ?N (a + 1) s6
       | (Break, s6) \<Rightarrow> (Inr (), a, s6)
       | (Throw e, s6) \<Rightarrow> (Inl e, a, s6))"
    using assms(4) by (rule whileLoop_body)
  have task: "doTask E task ag s =
      (case afterLoop ?N (whileLoop E pg ?N a s2) of (out, s7) \<Rightarrow> (out, ag1, leave s7))"
    using doTask_run [OF assms(1,2)] N reach by simp
  obtain o5 w5 where m: "chat_sendMessage E (Text (errorMsg f err)) (world s4) = (o5, w5)"
    by (cases "chat_sendMessage E (Text (errorMsg f err)) (world s4)")
  have run: "doTask E task ag s =
      (case chat_sendMessage E (Text (errorMsg f err)) (world s4) of
         (Inr r, w5) \<Rightarrow>
           (case afterLoop ?N
                   (case forCalls E pg post
                           ((perform (Sent (Text (errorMsg f err))) w5 ?logged)
                            \<lparr>response := r\<rparr>) of
                      (Inl e, s6) \<Rightarrow> (Inl e, a, s6)
                    | (Inr u, s6) \<Rightarrow> whileLoop E pg ?N (a + 1) s6) of
              (out, s7) \<Rightarrow> (out, ag1, leave s7))
       | (Inl err', w5) \<Rightarrow>
           (Inl err', ag1, leave (perform (Sent (Text (errorMsg f err))) w5 ?logged)))"
  proof (cases o5)
    case (Inl err')
    have "catchBlock E f err s4 =
        (Inl err', perform (Sent (Text (errorMsg f err))) w5 ?logged)"
      using m Inl by (simp add: catchBlock_def Let_def)
    then have "whileLoop E pg ?N a s2 =
        (Inl err', a, perform (Sent (Text (errorMsg f err))) w5 ?logged)"
      using batch body loop by simp
    then show ?thesis
      using task m Inl by (simp add: afterLoop_def)
  next
    case (Inr r)
    let ?s5 = "(perform (Sent (Text (errorMsg f err))) w5 ?logged)\<lparr>response := r\<rparr>"
    have caught: "catchBlock E f err s4 = (Inr (), ?s5)"
      using m Inr by (simp add: catchBlock_def Let_def)
    obtain o6 s6 where rest: "forCalls E pg post ?s5 = (o6, s6)"
      by (cases "forCalls E pg post ?s5")
    have "whileLoop E pg ?N a s2 =
        (case forCalls E pg post ?s5 of
           (Inl e, s6) \<Rightarrow> (Inl e, a, s6)
         | (Inr u, s6) \<Rightarrow> whileLoop E pg ?N (a + 1) s6)"
      using batch body loop caught rest by (cases o6) simp_all
    then show ?thesis
      using task m Inr by simp
  qed
  show ?thesis
    using source run by (simp add: errorMsg_def)
qed

text \<open>
  For the witness the first reply requests two \<^verbatim>\<open>goto\<close> calls. The first is
  processed; the chat rejects the function response of the second with
  \<^verbatim>\<open>Error: 503\<close> and then answers the diagnostic with a reply that requests
  nothing and says \<^verbatim>\<open>Done.\<close>
\<close>

theorem caught_exception_becomes_diagnostic_witness:
  "fst (doTask scripted ''go twice'' (ScraperAgent (Some 7))
          (start [Inr (requests [gotoExample, gotoExample]), Inr (says ''Loading.''),
                  Inl ''Error: 503'', Inr (says ''Done.'')])) = Inr (Some ''Done.'') \<and>
   effects (snd (snd (doTask scripted ''go twice'' (ScraperAgent (Some 7))
          (start [Inr (requests [gotoExample, gotoExample]), Inr (says ''Loading.''),
                  Inl ''Error: 503'', Inr (says ''Done.'')])))) =
     [Sent (Text ''go twice''), LoopBody 0,
      Dispatched 7 ''goto'' [(''url'', JStr ''https://example.com'')],
      Sent (FunctionResponse ''goto''
              [(''success'', JBool True), (''html'', JStr ''<html></html>'')]),
      Dispatched 7 ''goto'' [(''url'', JStr ''https://example.com'')],
      Sent (FunctionResponse ''goto''
              [(''success'', JBool True), (''html'', JStr ''<html></html>'')]),
      Sent (Text ''Error calling function goto: Error: 503''),
      LoopBody 1]"
proof -
  let ?w = "[Inr (requests [gotoExample, gotoExample]), Inr (says ''Loading.''),
             Inl ''Error: 503'', Inr (says ''Done.'')]"
  let ?ag = "ScraperAgent (Some 7) :: (nat, nat) agent"
  let ?ps = "[(''url'', JStr ''https://example.com'')]"
  let ?init = "enter (requests [gotoExample, gotoExample])
                 (perform (Sent (Text ''go twice''))
                    [Inr (says ''Loading.''), Inl ''Error: 503'', Inr (says ''Done.'')]
                    (logEvent (TaskStarted ''go twice'') (start ?w)))"
  let ?top = "logEvent (Processing (length ([gotoExample] @ gotoExample # [])))
                (logReplyText (response ?init) (mark (LoopBody 0) ?init))"
  have page: "ensurePage scripted ?ag (start ?w) = (Inr 7, ?ag, start ?w)"
    by (simp add: ensurePage_def ScraperAgent_def)
  have first: "chat_sendMessage scripted (Text ''go twice'') (world (start ?w))
      = (Inr (requests [gotoExample, gotoExample]),
         [Inr (says ''Loading.''), Inl ''Error: 503'', Inr (says ''Done.'')])"
    by (simp add: scripted_def start_def)
  have reach: "iterate scripted 7 (maxAttempts ?ag) 0 (0, ?init) = Some (0, ?init)"
    by simp
  have budget: "0 < maxAttempts ?ag"
    by (simp add: ScraperAgent_def)
  have calls: "functionCalls (response ?init) = Some ([gotoExample] @ gotoExample # [])"
    by (simp add: requests_def)
  have valid: "\<forall>x \<in> set [gotoExample]. \<not> invalidCall x"
    by (simp add: invalidCall_def gotoExample_def)
  have nm: "name gotoExample = Some ''goto''" and ne: "''goto'' \<noteq> []"
    and ar: "args gotoExample = Some ?ps"
    by (simp_all add: gotoExample_def)
  have "fst (forCalls scripted 7 [gotoExample] ?top) = Inr ()"
    by (simp add: run_defs)
  then have before: "forCalls scripted 7 [gotoExample] ?top
      = (Inr (), snd (forCalls scripted 7 [gotoExample] ?top))"
    by (metis prod.collapse)
  have "fst (tryBlock scripted 7 ''goto'' ?ps (snd (forCalls scripted 7 [gotoExample] ?top)))
      = Inl ''Error: 503''"
    by (simp add: run_defs)
  then have thrown: "tryBlock scripted 7 ''goto'' ?ps (snd (forCalls scripted 7 [gotoExample] ?top))
      = (Inl ''Error: 503'',
         snd (tryBlock scripted 7 ''goto'' ?ps (snd (forCalls scripted 7 [gotoExample] ?top))))"
    by (metis prod.collapse)
  show ?thesis
    using caught_exception_becomes_diagnostic
      [OF page first reach budget calls valid nm ne ar before thrown]
    by (simp add: whileLoop.simps run_defs)
qed

text \<open>
  The claim C5 as stated fails: the chat rejects the function response with
  \<^verbatim>\<open>Error: 503\<close>; \<^verbatim>\<open>doTask\<close> catches that and sends the diagnostic, and the chat
  rejects the diagnostic too. No reply is captured, and the exception of the second
  send reaches the caller of \<^verbatim>\<open>doTask\<close>.
\<close>

theorem diagnostic_send_throws_counterexample:
  "fst (doTask scripted ''navigate to example.com'' (ScraperAgent (Some 7))
          (start [Inr (requests [gotoExample]), Inl ''Error: 503'', Inl ''Error: 504'']))
     = Inl ''Error: 504'' \<and>
   effects (snd (snd (doTask scripted ''navigate to example.com'' (ScraperAgent (Some 7))
          (start [Inr (requests [gotoExample]), Inl ''Error: 503'', Inl ''Error: 504''])))) =
     [Sent (Text ''navigate to example.com''), LoopBody 0,
      Dispatched 7 ''goto'' [(''url'', JStr ''https://example.com'')],
      Sent (FunctionResponse ''goto''
              [(''success'', JBool True), (''html'', JStr ''<html></html>'')]),
      Sent (Text ''Error calling function goto: Error: 503'')]"
  by (simp add: whileLoop.simps run_defs)

section \<open>The browser over the life of an agent\<close>

text \<open>
  Inside the task loop the only effects are messages, dispatches and entries into the
  loop body. A property \<open>P\<close> of effects that none of these has, such as being a launch
  or a close of a browser, selects the same effects before and after.
\<close>

lemma tryBlock_filter:
  assumes "\<And>m. \<not> P (Sent m)" and "\<And>p f ps. \<not> P (Dispatched p f ps)"
  shows "filter P (effects (snd (tryBlock E pg f ps s))) = filter P (effects s)"
  using assms by (simp add: tryBlock_def Let_def split: prod.splits sum.splits)

lemma catchBlock_filter:
  assumes "\<And>m. \<not> P (Sent m)"
  shows "filter P (effects (snd (catchBlock E f err s))) = filter P (effects s)"
  using assms by (simp add: catchBlock_def Let_def split: prod.splits sum.splits)

lemma processCall_filter:
  assumes "\<And>m. \<not> P (Sent m)" and "\<And>p f ps. \<not> P (Dispatched p f ps)"
  shows "filter P (effects (snd (processCall E pg f ps s))) = filter P (effects s)"
proof (cases "tryBlock E pg f ps s")
  case (Pair out s1)
  then have "filter P (effects s1) = filter P (effects s)"
    using tryBlock_filter [of P E pg f ps s] assms by simp
  with Pair show ?thesis
    using catchBlock_filter [of P E f _ s1] assms(1)
    by (cases out) (simp_all add: processCall_def)
qed

lemma forCalls_filter:
  assumes "\<And>m. \<not> P (Sent m)" and "\<And>p f ps. \<not> P (Dispatched p f ps)"
  shows "filter P (effects (snd (forCalls E pg cs s))) = filter P (effects s)"
proof (induction cs arbitrary: s)
  case Nil
  show ?case by simp
next
  case (Cons c cs)
  show ?case
  proof (cases "invalidCall c")
    case True
    then show ?thesis
      by (simp add: forCalls_invalid del: forCalls.simps)
  next
    case False
    then obtain f ps where c: "name c = Some f" "f \<noteq> []" "args c = Some ps"
      by (auto simp: invalidCall_def)
    obtain out s1 where p: "processCall E pg f ps s = (out, s1)"
      by (cases "processCall E pg f ps s")
    then have "filter P (effects s1) = filter P (effects s)"
      using processCall_filter [of P E pg f ps s] assms by simp
    with c p show ?thesis
      using Cons.IH [of s1] by (cases out) simp_all
  qed
qed

lemma loopBody_filter:
  assumes "\<And>m. \<not> P (Sent m)" and "\<And>p f ps. \<not> P (Dispatched p f ps)"
    and "\<And>a. \<not> P (LoopBody a)"
  shows "filter P (effects (snd (loopBody E pg a s))) = filter P (effects s)"
proof (cases "functionCalls (response s)")
  case None
  with assms(3) show ?thesis by (simp add: loopBody_def)
next
  case (Some calls)
  show ?thesis
  proof (cases calls)
    case Nil
    with Some assms(3) show ?thesis by (simp add: loopBody_def)
  next
    case (Cons c cs)
    let ?top = "logEvent (Processing (length (c # cs)))
                  (logReplyText (response s) (mark (LoopBody a) s))"
    obtain o2 s2 where f: "forCalls E pg (c # cs) ?top = (o2, s2)"
      by (cases "forCalls E pg (c # cs) ?top")
    have "filter P (effects s2) = filter P (effects s)"
      using forCalls_filter [of P E pg "c # cs" ?top] f assms
      by (simp del: forCalls.simps)
    with Some Cons f show ?thesis
      by (cases o2) (simp_all add: loopBody_def Let_def del: forCalls.simps)
  qed
qed

lemma whileLoop_filter:
  assumes "\<And>m. \<not> P (Sent m)" and "\<And>p f ps. \<not> P (Dispatched p f ps)"
    and "\<And>a. \<not> P (LoopBody a)"
  shows "filter P (effects (snd (snd (whileLoop E pg N a s)))) = filter P (effects s)"
proof (induction E pg N a s rule: whileLoop.induct)
  case (1 E pg N a s)
  show ?case
  proof (cases "a < N")
    case False
    then show ?thesis by (simp add: whileLoop_exhausted)
  next
    case True
    obtain k s2 where body: "loopBody E pg a s = (k, s2)"
      by (cases "loopBody E pg a s")
    have s2: "filter P (effects s2) = filter P (effects s)"
      using loopBody_filter [of P E pg a s] body assms by simp
    show ?thesis
    proof (cases k)
      case Next
      with True body s2 "1.IH" [OF True body [symmetric] Next] show ?thesis
        by (simp add: whileLoop_Next)
    next
      case Break
      with True body s2 show ?thesis
        by (subst whileLoop.simps) simp
    next
      case (Throw err)
      with True body s2 show ?thesis
        by (subst whileLoop.simps) simp
    qed
  qed
qed

text \<open>
  A task on an agent that has a page: the agent is left as it was, and no browser is
  launched or closed.
\<close>

lemma doTask_with_page:
  assumes "page ag = Some pg"
    and "\<And>m. \<not> P (Sent m)" and "\<And>p f ps. \<not> P (Dispatched p f ps)"
    and "\<And>a. \<not> P (LoopBody a)"
  shows "fst (snd (doTask E task ag s)) = ag \<and>
         filter P (effects (snd (snd (doTask E task ag s)))) = filter P (effects s)"
proof -
  have e: "ensurePage E ag s = (Inr pg, ag, s)"
    using assms(1) by (rule ensurePage_present)
  obtain o2 w3 where m: "chat_sendMessage E (Text task) (world s) = (o2, w3)"
    by (cases "chat_sendMessage E (Text task) (world s)")
  show ?thesis
  proof (cases o2)
    case (Inl err)
    with e m assms(2) show ?thesis
      by (simp add: doTask_def Let_def)
  next
    case (Inr r)
    let ?s3 = "enter r (perform (Sent (Text task)) w3 (logEvent (TaskStarted task) s))"
    obtain out a' s4 where l: "whileLoop E pg (maxAttempts ag) 0 ?s3 = (out, a', s4)"
      by (cases "whileLoop E pg (maxAttempts ag) 0 ?s3") auto
    have "filter P (effects s4) = filter P (effects ?s3)"
      using whileLoop_filter [of P E pg "maxAttempts ag" 0 ?s3] l assms(2-4) by simp
    then have "filter P (effects s4) = filter P (effects s)"
      using assms(2) by simp
    moreover have "doTask E task ag s =
        (fst (afterLoop (maxAttempts ag) (out, a', s4)), ag,
         leave (snd (afterLoop (maxAttempts ag) (out, a', s4))))"
      using doTask_run [of E ag s pg ag s task r w3] e m Inr l
      by (simp add: case_prod_beta)
    ultimately show ?thesis
      by simp
  qed
qed

text \<open>
  A task on an agent without a page starts with \<^verbatim>\<open>initialize\<close>, whatever becomes of
  it afterwards; the browser field then holds what was launched.
\<close>

lemma doTask_without_page:
  assumes "page ag = None"
  shows "filter isClose (effects (snd (snd (doTask E task ag s)))) = filter isClose (effects s) \<and>
         (browser (fst (snd (doTask E task ag s))) = browser ag \<and>
            filter isLaunched (effects (snd (snd (doTask E task ag s))))
              = filter isLaunched (effects s) \<or>
          (\<exists>b. browser (fst (snd (doTask E task ag s))) = Some b \<and>
            filter isLaunched (effects (snd (snd (doTask E task ag s))))
              = filter isLaunched (effects s) @ [Launched b]))"
proof -
  obtain o1 ag1 s1 where i: "initialize E ag s = (o1, ag1, s1)"
    by (cases "initialize E ag s") auto
  have init: "filter isClose (effects s1) = filter isClose (effects s) \<and>
      (browser ag1 = browser ag \<and> filter isLaunched (effects s1) = filter isLaunched (effects s) \<or>
       (\<exists>b. browser ag1 = Some b \<and>
          filter isLaunched (effects s1) = filter isLaunched (effects s) @ [Launched b]))"
    using i assms by (auto simp: initialize_def Let_def split: prod.splits sum.splits)
  show ?thesis
  proof (cases "\<exists>pg. o1 = Inr () \<and> page ag1 = Some pg")
    case False
    then have "doTask E task ag s = (fst (doTask E task ag s), ag1, s1)"
      using i assms
      by (cases o1; cases "page ag1") (simp_all add: doTask_def ensurePage_def)
    with init show ?thesis
      by (metis fst_conv snd_conv)
  next
    case True
    then obtain pg where pg: "o1 = Inr ()" "page ag1 = Some pg"
      by auto
    have e: "ensurePage E ag s = (Inr pg, ag1, s1)"
      using i assms pg by (simp add: ensurePage_def)
    have same: "doTask E task ag s = doTask E task ag1 s1"
      using e pg(2) by (simp add: doTask_def ensurePage_present)
    have "fst (snd (doTask E task ag1 s1)) = ag1"
      and "filter isClose (effects (snd (snd (doTask E task ag1 s1)))) = filter isClose (effects s1)"
      and "filter isLaunched (effects (snd (snd (doTask E task ag1 s1))))
             = filter isLaunched (effects s1)"
      using doTask_with_page [of ag1 pg isClose E task s1]
        doTask_with_page [of ag1 pg isLaunched E task s1] pg(2)
      by simp_all
    with same init show ?thesis
      by simp
  qed
qed

text \<open>
  What \<^verbatim>\<open>cleanup\<close> does, in every state: it closes the browser of the browser
  field if there is one, sets the field to \<^verbatim>\<open>null\<close> when the close returned, and
  does not touch the page field.
\<close>

lemma cleanup_effect:
  "page (fst (snd (cleanup E ag s))) = page ag \<and>
   effects (snd (snd (cleanup E ag s))) =
     effects s @ (case browser ag of None \<Rightarrow> [] | Some b \<Rightarrow> [Close b]) \<and>
   (browser (fst (snd (cleanup E ag s))) = None \<or>
    browser (fst (snd (cleanup E ag s))) = browser ag \<and> fst (cleanup E ag s) \<noteq> Inr ())"
  by (simp add: cleanup_def split: option.splits prod.splits sum.splits)

lemma cleanup_browser:
  "browser (fst (snd (cleanup E ag s))) = None \<or>
   browser (fst (snd (cleanup E ag s))) = browser ag"
  by (simp add: cleanup_def split: option.splits prod.splits sum.splits)

lemma cleanup_launched:
  "filter isLaunched (effects (snd (snd (cleanup E ag s)))) = filter isLaunched (effects s)"
  by (simp add: cleanup_def split: option.splits prod.splits sum.splits)

text \<open>The browser field only ever holds a browser that \<^verbatim>\<open>initialize\<close> launched.\<close>

lemma launched_kept:
  assumes "filter isLaunched xs' = filter isLaunched xs @ ys"
    and "Launched b \<in> set xs"
  shows "Launched b \<in> set xs'"
proof -
  have "Launched b \<in> set (filter isLaunched xs)"
    using assms(2) by simp
  then have "Launched b \<in> set (filter isLaunched xs')"
    using assms(1) by simp
  then show ?thesis
    by simp
qed

lemma launched_new:
  assumes "filter isLaunched xs' = filter isLaunched xs @ [Launched b]"
  shows "Launched b \<in> set xs'"
proof -
  have "Launched b \<in> set (filter isLaunched xs')"
    using assms by simp
  then show ?thesis
    by simp
qed

lemma invoke_browser_launched:
  assumes "\<forall>b. browser ag = Some b \<longrightarrow> Launched b \<in> set (effects s)"
    and "invoke E c (ag, s) = (ag', s')"
  shows "\<forall>b. browser ag' = Some b \<longrightarrow> Launched b \<in> set (effects s')"
proof (intro allI impI)
  fix b assume b: "browser ag' = Some b"
  show "Launched b \<in> set (effects s')"
  proof (cases c)
    case (DoTask task)
    have run: "ag' = fst (snd (doTask E task ag s))" "s' = snd (snd (doTask E task ag s))"
      using assms(2) DoTask by simp_all
    show ?thesis
    proof (cases "page ag")
      case None
      have "(browser ag' = browser ag \<and>
               filter isLaunched (effects s') = filter isLaunched (effects s)) \<or>
            (\<exists>b. browser ag' = Some b \<and>
               filter isLaunched (effects s') = filter isLaunched (effects s) @ [Launched b])"
        using doTask_without_page [OF None, of E task s] run by simp
      then show ?thesis
      proof
        assume same: "browser ag' = browser ag \<and>
               filter isLaunched (effects s') = filter isLaunched (effects s)"
        then have "Launched b \<in> set (effects s)"
          using assms(1) b by simp
        moreover have "filter isLaunched (effects s') = filter isLaunched (effects s) @ []"
          using same by simp
        ultimately show ?thesis
          by (rule launched_kept [rotated])
      next
        assume "\<exists>b. browser ag' = Some b \<and>
               filter isLaunched (effects s') = filter isLaunched (effects s) @ [Launched b]"
        then have "filter isLaunched (effects s') = filter isLaunched (effects s) @ [Launched b]"
          using b by simp
        then show ?thesis
          by (rule launched_new)
      qed
    next
      case (Some pg)
      have same: "ag' = ag" "filter isLaunched (effects s') = filter isLaunched (effects s)"
        using doTask_with_page [of ag pg isLaunched E task s] Some run by simp_all
      then have "Launched b \<in> set (effects s)"
        using assms(1) b by simp
      moreover have "filter isLaunched (effects s') = filter isLaunched (effects s) @ []"
        using same by simp
      ultimately show ?thesis
        by (rule launched_kept [rotated])
    qed
  next
    case Cleanup
    have run: "ag' = fst (snd (cleanup E ag s))" "s' = snd (snd (cleanup E ag s))"
      using assms(2) Cleanup by simp_all
    have "browser ag' = None \<or> browser ag' = browser ag"
      using cleanup_browser [of E ag s] run by simp
    then have "Launched b \<in> set (effects s)"
      using assms(1) b by auto
    moreover have "filter isLaunched (effects s') = filter isLaunched (effects s) @ []"
      using cleanup_launched [of E ag s] run by simp
    ultimately show ?thesis
      by (rule launched_kept [rotated])
  next
    case (OverridePage pg)
    with assms b show ?thesis by (auto simp: overridePage_def)
  next
    case (SetMaxAttempts n)
    with assms b show ?thesis by (auto simp: setMaxAttempts_def)
  qed
qed

lemma client_browser_launched:
  "\<forall>b. browser ag = Some b \<longrightarrow> Launched b \<in> set (effects s) \<Longrightarrow>
   client E cs (ag, s) = (ag', s') \<Longrightarrow>
   \<forall>b. browser ag' = Some b \<longrightarrow> Launched b \<in> set (effects s')"
proof (induction cs arbitrary: ag s)
  case Nil
  then show ?case by simp
next
  case (Cons c cs)
  obtain ag1 s1 where step: "invoke E c (ag, s) = (ag1, s1)"
    by (cases "invoke E c (ag, s)")
  have "\<forall>b. browser ag1 = Some b \<longrightarrow> Launched b \<in> set (effects s1)"
    using invoke_browser_launched [OF Cons.prems(1) step] .
  moreover have "client E cs (ag1, s1) = (ag', s')"
    using Cons.prems(2) step by simp
  ultimately show ?case
    by (rule Cons.IH)
qed

text \<open>
  Once the agent has a page and no browser, it stays so, and nothing is launched or
  closed.
\<close>

lemma invoke_injected:
  assumes "page ag \<noteq> None" and "browser ag = None"
    and "invoke E c (ag, s) = (ag', s')"
  shows "page ag' \<noteq> None \<and> browser ag' = None \<and>
         filter isLaunched (effects s') = filter isLaunched (effects s) \<and>
         filter isClose (effects s') = filter isClose (effects s)"
proof (cases c)
  case (DoTask task)
  from assms(1) obtain pg where pg: "page ag = Some pg"
    by auto
  show ?thesis
    using doTask_with_page [of ag pg isLaunched E task s]
      doTask_with_page [of ag pg isClose E task s] pg assms(2,3) DoTask
    by simp
next
  case Cleanup
  with assms show ?thesis by (auto simp: cleanup_def)
next
  case (OverridePage pg)
  with assms show ?thesis by (auto simp: overridePage_def)
next
  case (SetMaxAttempts n)
  with assms show ?thesis by (auto simp: setMaxAttempts_def)
qed

lemma client_injected:
  "page ag \<noteq> None \<Longrightarrow> browser ag = None \<Longrightarrow> client E cs (ag, s) = (ag', s') \<Longrightarrow>
   browser ag' = None \<and>
   filter isLaunched (effects s') = filter isLaunched (effects s) \<and>
   filter isClose (effects s') = filter isClose (effects s)"
proof (induction cs arbitrary: ag s)
  case Nil
  then show ?case by simp
next
  case (Cons c cs)
  obtain ag1 s1 where step: "invoke E c (ag, s) = (ag1, s1)"
    by (cases "invoke E c (ag, s)")
  have one: "page ag1 \<noteq> None \<and> browser ag1 = None \<and>
      filter isLaunched (effects s1) = filter isLaunched (effects s) \<and>
      filter isClose (effects s1) = filter isClose (effects s)"
    using invoke_injected [OF Cons.prems(1,2) step] .
  have "client E cs (ag1, s1) = (ag', s')"
    using Cons.prems(3) step by simp
  with one Cons.IH [of ag1 s1] show ?case
    by simp
qed

lemma client_injectsFirst:
  "injectsFirst cs \<Longrightarrow> browser ag = None \<Longrightarrow> client E cs (ag, s) = (ag', s') \<Longrightarrow>
   browser ag' = None \<and>
   filter isLaunched (effects s') = filter isLaunched (effects s) \<and>
   filter isClose (effects s') = filter isClose (effects s)"
proof (induction cs arbitrary: ag s rule: injectsFirst.induct)
  case 1
  then show ?case by simp
next
  case (2 pg cs)
  have "client E cs (overridePage pg ag, s) = (ag', s')"
    using "2.prems"(3) by simp
  moreover have "page (overridePage pg ag) \<noteq> None" "browser (overridePage pg ag) = None"
    using "2.prems"(2) by (simp_all add: overridePage_def)
  ultimately show ?case
    using client_injected [of "overridePage pg ag" E cs s ag' s'] by simp
next
  case (3 task cs)
  then show ?case by simp
next
  case (4 cs)
  have "invoke E Cleanup (ag, s) = (ag, s)"
    using "4.prems"(2) by (simp add: cleanup_def)
  with "4.prems" "4.IH" [of ag s] show ?case
    by simp
next
  case (5 n cs)
  have "client E cs (setMaxAttempts n ag, s) = (ag', s')"
    using "5.prems"(3) by simp
  moreover have "browser (setMaxAttempts n ag) = None"
    using "5.prems"(2) by (simp add: setMaxAttempts_def)
  ultimately show ?case
    using "5.IH" "5.prems"(1) by simp
qed

text \<open>
  Claim C10, as the code has it. Take any client: an agent constructed with or
  without a page, then any sequence of its public methods, observed from the start.
  A following \<^verbatim>\<open>cleanup\<close> never changes the page field; it closes exactly the
  browser held in the browser field, if there is one, and sets the field to
  \<^verbatim>\<open>null\<close> when the close returns; and the field only ever holds a browser that
  \<^verbatim>\<open>initialize\<close> launched. When the page was injected before anything could be
  launched, by the constructor or by \<^verbatim>\<open>overridePage\<close> ahead of the first
  \<^verbatim>\<open>doTask\<close>, no browser is launched and none is closed in the whole run.

  The claim says more: that \<^verbatim>\<open>cleanup\<close> performs no close whenever a page was
  injected by \<^verbatim>\<open>overridePage\<close>. That fails when the injection comes after a task
  that launched a browser: the field still holds that browser and \<^verbatim>\<open>cleanup\<close>
  closes it.
\<close>

theorem cleanup_closes_the_launched_browser:
  assumes "effects s = []"
    and "client E cs (ScraperAgent pg0, s) = (ag, s')"
  shows "page (fst (snd (cleanup E ag s'))) = page ag \<and>
         effects (snd (snd (cleanup E ag s'))) =
           effects s' @ (case browser ag of None \<Rightarrow> [] | Some b \<Rightarrow> [Close b]) \<and>
         (fst (cleanup E ag s') = Inr () \<longrightarrow> browser (fst (snd (cleanup E ag s'))) = None) \<and>
         (case browser ag of None \<Rightarrow> True | Some b \<Rightarrow> Launched b \<in> set (effects s')) \<and>
         (pg0 \<noteq> None \<or> injectsFirst cs \<longrightarrow>
            browser ag = None \<and> filter isLaunched (effects s') = [] \<and>
            filter isClose (effects s') = [])"
proof -
  have fresh: "browser (ScraperAgent pg0 :: ('a, 'b) agent) = None"
    by (simp add: ScraperAgent_def)
  have "\<forall>b. browser (ScraperAgent pg0 :: ('a, 'b) agent) = Some b
          \<longrightarrow> Launched b \<in> set (effects s)"
    using fresh by simp
  then have "\<forall>b. browser ag = Some b \<longrightarrow> Launched b \<in> set (effects s')"
    using assms(2) by (rule client_browser_launched)
  then have launched: "case browser ag of None \<Rightarrow> True | Some b \<Rightarrow> Launched b \<in> set (effects s')"
    by (simp split: option.splits)
  have injected: "browser ag = None \<and> filter isLaunched (effects s') = [] \<and>
      filter isClose (effects s') = []" if "pg0 \<noteq> None \<or> injectsFirst cs"
    using that
  proof
    assume "pg0 \<noteq> None"
    then have "page (ScraperAgent pg0 :: ('a, 'b) agent) \<noteq> None"
      by (simp add: ScraperAgent_def)
    then show ?thesis
      using client_injected [OF _ fresh assms(2)] assms(1) by simp
  next
    assume "injectsFirst cs"
    then show ?thesis
      using client_injectsFirst [OF _ fresh assms(2)] assms(1) by simp
  qed
  have "fst (cleanup E ag s') = Inr () \<longrightarrow> browser (fst (snd (cleanup E ag s'))) = None"
    using cleanup_effect [of E ag s'] by blast
  with cleanup_effect [of E ag s'] launched injected show ?thesis
    by blast
qed

text \<open>
  Two clients for the witness. The first runs a task on an agent without a page: a
  browser is launched, and \<^verbatim>\<open>cleanup\<close> closes it. The second replaces the page
  first: nothing is launched, nothing is closed.
\<close>

theorem cleanup_closes_the_launched_browser_witness:
  "browser (fst (client scripted [DoTask ''x''] (ScraperAgent None, start [Inr (says ''Hello.'')])))
     = Some 1 \<and>
   page (fst (snd (cleanup scripted
     (fst (client scripted [DoTask ''x''] (ScraperAgent None, start [Inr (says ''Hello.'')])))
     (snd (client scripted [DoTask ''x''] (ScraperAgent None, start [Inr (says ''Hello.'')]))))))
     = Some 1 \<and>
   effects (snd (snd (cleanup scripted
     (fst (client scripted [DoTask ''x''] (ScraperAgent None, start [Inr (says ''Hello.'')])))
     (snd (client scripted [DoTask ''x''] (ScraperAgent None, start [Inr (says ''Hello.'')]))))))
     = [Launched 1, NewPage 1, Sent (Text ''x''), LoopBody 0, Close 1] \<and>
   injectsFirst [OverridePage 9, DoTask ''x'', Cleanup :: nat call] \<and>
   filter isClose (effects (snd (client scripted [OverridePage 9, DoTask ''x'', Cleanup]
     (ScraperAgent None, start [Inr (says ''Hello.'')])))) = []"
proof -
  let ?x = "(ScraperAgent None, start [Inr (says ''Hello.'')])
              :: (nat, nat) agent \<times> (script, nat, nat) rt"
  have fresh: "effects (start [Inr (says ''Hello.'')]) = []"
    by (simp add: start_def)
  have one: "client scripted [DoTask ''x''] ?x =
      (fst (client scripted [DoTask ''x''] ?x), snd (client scripted [DoTask ''x''] ?x))"
    by simp
  have two: "client scripted [OverridePage 9, DoTask ''x'', Cleanup] ?x =
      (fst (client scripted [OverridePage 9, DoTask ''x'', Cleanup] ?x),
       snd (client scripted [OverridePage 9, DoTask ''x'', Cleanup] ?x))"
    by simp
  show ?thesis
    using cleanup_closes_the_launched_browser [OF fresh one]
      cleanup_closes_the_launched_browser [OF fresh two]
    by (simp add: whileLoop.simps run_defs)
qed

text \<open>
  The claim C10 as stated fails: after a task that launched a browser the client
  injects a page with \<^verbatim>\<open>overridePage\<close>, and \<^verbatim>\<open>cleanup\<close> closes the browser all
  the same.
\<close>

theorem cleanup_after_overridePage_counterexample:
  "page (fst (client scripted [DoTask ''x'', OverridePage 9]
     (ScraperAgent None, start [Inr (says ''Hello.'')]))) = Some 9 \<and>
   filter isClose (effects (snd (client scripted [DoTask ''x'', OverridePage 9]
     (ScraperAgent None, start [Inr (says ''Hello.'')])))) = [] \<and>
   filter isClose (effects (snd (client scripted [DoTask ''x'', OverridePage 9, Cleanup]
     (ScraperAgent None, start [Inr (says ''Hello.'')])))) = [Close 1]"
  by (simp add: whileLoop.simps run_defs)

end
